theory Spec2Isabelle
  imports Complex_Main "HOL-Library.Word"
begin

unbundle bit_operations_syntax

section \<open>The integer types of the source\<close>

text \<open>
  \<^verbatim>\<open>std::size_t\<close> is the 64-bit unsigned type and is modelled by \<open>nat\<close>; \<^verbatim>\<open>long long\<close> is
  modelled by \<open>int\<close>, its range being \<open>long_long\<close>. Wherever the source mixes the two
  (\<^verbatim>\<open>bit < bits\<close>, \<^verbatim>\<open>bits / bits_per_block\<close>, \<^verbatim>\<open>set(i)\<close> with a \<^verbatim>\<open>long long i\<close>) the signed
  operand is converted to \<^verbatim>\<open>std::size_t\<close>, which is \<open>size_t_of\<close>. The literal \<^verbatim>\<open>1\<close> of
  \<^verbatim>\<open>block_bitmask\<close> is an \<^verbatim>\<open>int\<close>, taken to be 32 bits wide.
\<close>

definition size_t_of :: "int \<Rightarrow> nat" where
  "size_t_of x = nat (x mod 2 ^ 64)"

definition long_long :: "int \<Rightarrow> bool" where
  "long_long x \<longleftrightarrow> - (2 ^ 63) \<le> x \<and> x < 2 ^ 63"

section \<open>The container\<close>

text \<open>
  \<^verbatim>\<open>template <typename T> class BitArray\<close> with its two data members. The block type
  \<^verbatim>\<open>T\<close> is a machine integer \<open>'a word\<close>; signed and unsigned types of one width have the
  same bit patterns, and the bitwise operators of the source act on those patterns: where
  a block narrower than \<^verbatim>\<open>int\<close> is promoted for \<^verbatim>\<open>|=\<close>, \<^verbatim>\<open>&= ~\<close> or \<^verbatim>\<open>&\<close> and the result
  converted back, the bits inside the block are those of the operation at the block's
  width. A block pointer is an index into \<open>blocks\<close>; an access outside the allocated
  blocks has no defined result, which is \<open>None\<close>.
\<close>

record 'T BitArray =
  blocks :: "'T list"
  bits :: int

text \<open>\<^verbatim>\<open>bits_per_block = sizeof(block_type) * __CHAR_BIT__\<close>\<close>

definition bits_per_block :: "'a::len itself \<Rightarrow> nat" where
  "bits_per_block _ = LENGTH('a)"

text \<open>
  The two static assertions on the block type accept every integral type whose size in
  bytes is a power of two. The integer types among them are machine words of width 8,
  16, 32 or 64: these are the block types \<open>'a word\<close> of which \<open>block_type_accepted\<close>
  holds. The assertions accept \<^verbatim>\<open>bool\<close> as well, which is not a machine word; its
  instantiation is the section on the block type \<^verbatim>\<open>bool\<close> below.
\<close>

definition block_type_accepted :: "'a::len itself \<Rightarrow> bool" where
  "block_type_accepted t \<longleftrightarrow> bits_per_block t \<in> {8, 16, 32, 64}"

text \<open>
  A block type that is no wider than \<^verbatim>\<open>int\<close>: \<^verbatim>\<open>char\<close>, \<^verbatim>\<open>(u)int8_t\<close>, \<^verbatim>\<open>(u)int16_t\<close>,
  \<^verbatim>\<open>(u)int32_t\<close>, the types the README names.
\<close>

definition block_fits_int :: "'a::len itself \<Rightarrow> bool" where
  "block_fits_int t \<longleftrightarrow> bits_per_block t \<in> {8, 16, 32}"

text \<open>
  \<^verbatim>\<open>return (1 << (bits_per_block - (index & (bits_per_block - 1)) - 1));\<close>
  The shift is computed in \<^verbatim>\<open>int\<close> (the shift by 31 gives \<^verbatim>\<open>INT_MIN\<close>) and the result is
  converted to the block type, which truncates it for a narrower block and extends the
  sign for a wider one. A shift of an \<^verbatim>\<open>int\<close> by 32 or more has no defined result:
  \<open>None\<close>.
\<close>

definition block_bitmask :: "nat \<Rightarrow> 'a::len word option" where
  "block_bitmask index =
     (let sh = bits_per_block TYPE('a) - (index AND (bits_per_block TYPE('a) - 1)) - 1
      in if sh < 32 then Some (scast (push_bit sh (1 :: 32 word))) else None)"

text \<open>
  \<^verbatim>\<open>return blocks[index / bits_per_block] & block_bitmask(index);\<close>
  A read outside the allocated blocks has no defined result.
\<close>

definition bit_at :: "'a::len word BitArray \<Rightarrow> nat \<Rightarrow> bool option" where
  "bit_at a index =
     (if index div bits_per_block TYPE('a) < length (blocks a)
      then map_option (\<lambda>m. (blocks a ! (index div bits_per_block TYPE('a))) AND m \<noteq> 0)
             (block_bitmask index)
      else None)"

text \<open>\<^verbatim>\<open>blocks[index / bits_per_block] |= block_bitmask(index);\<close>\<close>

definition set_ba :: "'a::len word BitArray \<Rightarrow> nat \<Rightarrow> 'a word BitArray option" where
  "set_ba a index =
     (if index div bits_per_block TYPE('a) < length (blocks a)
      then map_option
             (\<lambda>m. a\<lparr>blocks := (blocks a)[index div bits_per_block TYPE('a) :=
                      (blocks a ! (index div bits_per_block TYPE('a))) OR m]\<rparr>)
             (block_bitmask index)
      else None)"

text \<open>\<^verbatim>\<open>blocks[index / bits_per_block] &= ~block_bitmask(index);\<close>\<close>

definition clear :: "'a::len word BitArray \<Rightarrow> nat \<Rightarrow> 'a word BitArray option" where
  "clear a index =
     (if index div bits_per_block TYPE('a) < length (blocks a)
      then map_option
             (\<lambda>m. a\<lparr>blocks := (blocks a)[index div bits_per_block TYPE('a) :=
                      (blocks a ! (index div bits_per_block TYPE('a))) AND NOT m]\<rparr>)
             (block_bitmask index)
      else None)"

text \<open>\<^verbatim>\<open>for (long long i = 0; i < bits; i++) { set(i); }\<close>, the loop from \<open>i\<close> on.\<close>

function set_all_from :: "int \<Rightarrow> 'a::len word BitArray \<Rightarrow> 'a word BitArray option" where
  "set_all_from i a =
     (if i < bits a
      then (case set_ba a (size_t_of i) of
              None \<Rightarrow> None
            | Some a' \<Rightarrow> set_all_from (i + 1) a')
      else Some a)"
  by pat_completeness auto
termination
  by (relation "measure (\<lambda>(i, a). nat (bits a - i))") (auto simp: set_ba_def split: if_splits)

definition set_all :: "'a::len word BitArray \<Rightarrow> 'a word BitArray option" where
  "set_all a = set_all_from 0 a"

text \<open>\<^verbatim>\<open>for (long long i = 0; i < bits; i++) { clear(i); }\<close>, the loop from \<open>i\<close> on.\<close>

function clear_all_from :: "int \<Rightarrow> 'a::len word BitArray \<Rightarrow> 'a word BitArray option" where
  "clear_all_from i a =
     (if i < bits a
      then (case clear a (size_t_of i) of
              None \<Rightarrow> None
            | Some a' \<Rightarrow> clear_all_from (i + 1) a')
      else Some a)"
  by pat_completeness auto
termination
  by (relation "measure (\<lambda>(i, a). nat (bits a - i))") (auto simp: clear_def split: if_splits)

definition clear_all :: "'a::len word BitArray \<Rightarrow> 'a word BitArray option" where
  "clear_all a = clear_all_from 0 a"

text \<open>
  \<^verbatim>\<open>blocks{new block_type[(num_bits / bits_per_block) + !!(num_bits % bits_per_block)]}\<close>:
  the number of blocks, computed in \<^verbatim>\<open>std::size_t\<close>.
\<close>

definition block_count :: "'a::len itself \<Rightarrow> int \<Rightarrow> nat" where
  "block_count t num_bits =
     size_t_of num_bits div bits_per_block t
       + (if size_t_of num_bits mod bits_per_block t \<noteq> 0 then 1 else 0)"

text \<open>
  The constructor \<^verbatim>\<open>BitArray(long long num_bits)\<close>. The array expression \<^verbatim>\<open>new block_type[n]\<close>
  does not initialise the blocks; \<open>mem k\<close> is the value that block \<open>k\<close> of the fresh
  allocation happens to hold. The body then runs \<^verbatim>\<open>clear_all()\<close>.
\<close>

definition new_BitArray :: "(nat \<Rightarrow> 'a::len word) \<Rightarrow> int \<Rightarrow> 'a word BitArray option" where
  "new_BitArray mem num_bits =
     clear_all \<lparr>blocks = map mem [0..<block_count TYPE('a) num_bits], bits = num_bits\<rparr>"

text \<open>\<^verbatim>\<open>bool accessible(std::size_t bit) const noexcept { return bit < bits; }\<close>\<close>

definition accessible :: "'a::len word BitArray \<Rightarrow> nat \<Rightarrow> bool" where
  "accessible a bit_idx \<longleftrightarrow> bit_idx < size_t_of (bits a)"

text \<open>\<^verbatim>\<open>std::size_t size() const noexcept { return bits; }\<close>\<close>

definition size_ba :: "'a::len word BitArray \<Rightarrow> nat" where
  "size_ba a = size_t_of (bits a)"

text \<open>
  The one exception of the source, \<^verbatim>\<open>std::range_error{"index out of range"}\<close>.
\<close>

datatype error = IndexOutOfRange

text \<open>
  \<^verbatim>\<open>bool at(std::size_t index)\<close>, a non-const member: the result is the value returned or
  the exception thrown, together with the array afterwards.
\<close>

definition at_ba :: "'a::len word BitArray \<Rightarrow> nat \<Rightarrow> ((error + bool) \<times> 'a word BitArray) option" where
  "at_ba a index =
     (if accessible a index
      then map_option (\<lambda>b. (Inr b, a)) (bit_at a index)
      else Some (Inl IndexOutOfRange, a))"

text \<open>\<^verbatim>\<open>bool operator[](std::size_t index) const noexcept { return bit_at(index); }\<close>\<close>

definition subscript :: "'a::len word BitArray \<Rightarrow> nat \<Rightarrow> bool option" where
  "subscript a index = bit_at a index"

section \<open>The block type bool\<close>

text \<open>
  Both static assertions also pass for \<^verbatim>\<open>bool\<close>: \<^verbatim>\<open>std::is_integral_v<bool>\<close> holds and
  \<^verbatim>\<open>sizeof(bool)\<close> is 1. A \<^verbatim>\<open>bool\<close> block is not a machine word: it holds one truth value,
  while \<^verbatim>\<open>bits_per_block = sizeof(bool) * __CHAR_BIT__\<close> is 8. In an operator a \<^verbatim>\<open>bool\<close> is
  promoted to the \<^verbatim>\<open>int\<close> 0 or 1, and an \<^verbatim>\<open>int\<close> converted to \<^verbatim>\<open>bool\<close> is true when it is
  not 0. The member functions of \<^verbatim>\<open>BitArray<bool>\<close> follow, each the source line of its
  namesake with these conversions.
\<close>

definition bits_per_block_bool :: nat where
  "bits_per_block_bool = 8"

definition int_of_bool :: "bool \<Rightarrow> 32 word" where
  "int_of_bool b = (if b then 1 else 0)"

definition bool_of_int :: "32 word \<Rightarrow> bool" where
  "bool_of_int x \<longleftrightarrow> x \<noteq> 0"

text \<open>
  \<^verbatim>\<open>return (1 << (bits_per_block - (index & (bits_per_block - 1)) - 1));\<close>
  with the return type \<^verbatim>\<open>bool\<close>.
\<close>

definition block_bitmask_bool :: "nat \<Rightarrow> bool option" where
  "block_bitmask_bool index =
     (let sh = bits_per_block_bool - (index AND (bits_per_block_bool - 1)) - 1
      in if sh < 32 then Some (bool_of_int (push_bit sh (1 :: 32 word))) else None)"

text \<open>\<^verbatim>\<open>return blocks[index / bits_per_block] & block_bitmask(index);\<close>\<close>

definition bit_at_bool :: "bool BitArray \<Rightarrow> nat \<Rightarrow> bool option" where
  "bit_at_bool a index =
     (if index div bits_per_block_bool < length (blocks a)
      then map_option
             (\<lambda>m. bool_of_int (int_of_bool (blocks a ! (index div bits_per_block_bool))
                                   AND int_of_bool m))
             (block_bitmask_bool index)
      else None)"

text \<open>\<^verbatim>\<open>blocks[index / bits_per_block] |= block_bitmask(index);\<close>\<close>

definition set_bool :: "bool BitArray \<Rightarrow> nat \<Rightarrow> bool BitArray option" where
  "set_bool a index =
     (if index div bits_per_block_bool < length (blocks a)
      then map_option
             (\<lambda>m. a\<lparr>blocks := (blocks a)[index div bits_per_block_bool :=
                      bool_of_int (int_of_bool (blocks a ! (index div bits_per_block_bool))
                                     OR int_of_bool m)]\<rparr>)
             (block_bitmask_bool index)
      else None)"

text \<open>\<^verbatim>\<open>blocks[index / bits_per_block] &= ~block_bitmask(index);\<close>\<close>

definition clear_bool :: "bool BitArray \<Rightarrow> nat \<Rightarrow> bool BitArray option" where
  "clear_bool a index =
     (if index div bits_per_block_bool < length (blocks a)
      then map_option
             (\<lambda>m. a\<lparr>blocks := (blocks a)[index div bits_per_block_bool :=
                      bool_of_int (int_of_bool (blocks a ! (index div bits_per_block_bool))
                                     AND NOT (int_of_bool m))]\<rparr>)
             (block_bitmask_bool index)
      else None)"

text \<open>\<^verbatim>\<open>for (long long i = 0; i < bits; i++) { set(i); }\<close>, the loop from \<open>i\<close> on.\<close>

function set_all_from_bool :: "int \<Rightarrow> bool BitArray \<Rightarrow> bool BitArray option" where
  "set_all_from_bool i a =
     (if i < bits a
      then (case set_bool a (size_t_of i) of
              None \<Rightarrow> None
            | Some a' \<Rightarrow> set_all_from_bool (i + 1) a')
      else Some a)"
  by pat_completeness auto
termination
  by (relation "measure (\<lambda>(i, a). nat (bits a - i))") (auto simp: set_bool_def split: if_splits)

definition set_all_bool :: "bool BitArray \<Rightarrow> bool BitArray option" where
  "set_all_bool a = set_all_from_bool 0 a"

text \<open>\<^verbatim>\<open>for (long long i = 0; i < bits; i++) { clear(i); }\<close>, the loop from \<open>i\<close> on.\<close>

function clear_all_from_bool :: "int \<Rightarrow> bool BitArray \<Rightarrow> bool BitArray option" where
  "clear_all_from_bool i a =
     (if i < bits a
      then (case clear_bool a (size_t_of i) of
              None \<Rightarrow> None
            | Some a' \<Rightarrow> clear_all_from_bool (i + 1) a')
      else Some a)"
  by pat_completeness auto
termination
  by (relation "measure (\<lambda>(i, a). nat (bits a - i))") (auto simp: clear_bool_def split: if_splits)

definition clear_all_bool :: "bool BitArray \<Rightarrow> bool BitArray option" where
  "clear_all_bool a = clear_all_from_bool 0 a"

text \<open>The constructor, on a fresh allocation whose block \<open>k\<close> holds \<open>mem k\<close>.\<close>

definition new_BitArray_bool :: "(nat \<Rightarrow> bool) \<Rightarrow> int \<Rightarrow> bool BitArray option" where
  "new_BitArray_bool mem num_bits =
     clear_all_bool
       \<lparr>blocks = map mem [0..<size_t_of num_bits div bits_per_block_bool
                              + (if size_t_of num_bits mod bits_per_block_bool \<noteq> 0 then 1 else 0)],
        bits = num_bits\<rparr>"

text \<open>\<^verbatim>\<open>accessible\<close> and \<^verbatim>\<open>at\<close>\<close>

definition accessible_bool :: "bool BitArray \<Rightarrow> nat \<Rightarrow> bool" where
  "accessible_bool a bit_idx \<longleftrightarrow> bit_idx < size_t_of (bits a)"

definition at_bool :: "bool BitArray \<Rightarrow> nat \<Rightarrow> ((error + bool) \<times> bool BitArray) option" where
  "at_bool a index =
     (if accessible_bool a index
      then map_option (\<lambda>b. (Inr b, a)) (bit_at_bool a index)
      else Some (Inl IndexOutOfRange, a))"

section \<open>The iterators\<close>

text \<open>
  Both iterator classes hold \<^verbatim>\<open>IterType *ptr\<close> and \<^verbatim>\<open>long long current_idx\<close>; the pointer
  is the index of the block it points to, relative to \<^verbatim>\<open>blocks\<close>.
\<close>

record cursor =
  ptr :: int
  current_idx :: int

text \<open>\<^verbatim>\<open>Iterator(IterType *ptr, long long idx) : ptr{ptr}, current_idx{idx} {}\<close>\<close>

definition Iterator :: "int \<Rightarrow> int \<Rightarrow> cursor" where
  "Iterator p idx = \<lparr>ptr = p, current_idx = idx\<rparr>"

text \<open>\<^verbatim>\<open>Iterator::operator++\<close>; the comparison with \<^verbatim>\<open>bits_per_block\<close> is unsigned.\<close>

definition Iterator_inc :: "'a::len itself \<Rightarrow> cursor \<Rightarrow> cursor" where
  "Iterator_inc t it =
     (if size_t_of (current_idx it + 1) < bits_per_block t
      then it\<lparr>current_idx := current_idx it + 1\<rparr>
      else it\<lparr>current_idx := 0, ptr := ptr it + 1\<rparr>)"

text \<open>\<^verbatim>\<open>Iterator::operator--\<close>\<close>

definition Iterator_dec :: "'a::len itself \<Rightarrow> cursor \<Rightarrow> cursor" where
  "Iterator_dec t it =
     (if current_idx it = 0
      then it\<lparr>current_idx := int (bits_per_block t) - 1, ptr := ptr it - 1\<rparr>
      else it\<lparr>current_idx := current_idx it - 1\<rparr>)"

text \<open>
  \<^verbatim>\<open>bool operator*() { return *ptr & block_bitmask(current_idx); }\<close>, the same in both
  iterator classes. \<open>bs\<close> is the block buffer the pointer points into.
\<close>

definition deref :: "'a::len word list \<Rightarrow> cursor \<Rightarrow> bool option" where
  "deref bs it =
     (if 0 \<le> ptr it \<and> ptr it < int (length bs)
      then map_option (\<lambda>m. (bs ! nat (ptr it)) AND m \<noteq> 0)
             (block_bitmask (size_t_of (current_idx it)))
      else None)"

text \<open>
  The constructor of the reverse iterator:
  \<^verbatim>\<open>ReverseIterator(IterType *ptr, long long idx, long long nbits) : ptr{ptr}, current_idx{idx}
  { if (idx < 0) { current_idx = bits_per_block - 1; ptr--; } }\<close>
  In the body the name \<^verbatim>\<open>ptr\<close> is the parameter, which hides the member: the decrement
  changes the parameter, and the member keeps the value it was initialised with.
\<close>

definition ReverseIterator :: "'a::len itself \<Rightarrow> int \<Rightarrow> int \<Rightarrow> int \<Rightarrow> cursor" where
  "ReverseIterator t p idx nbits =
     (if idx < 0
      then \<lparr>ptr = p, current_idx = int (bits_per_block t) - 1\<rparr>
      else \<lparr>ptr = p, current_idx = idx\<rparr>)"

text \<open>\<^verbatim>\<open>ReverseIterator::operator++\<close>\<close>

definition ReverseIterator_inc :: "'a::len itself \<Rightarrow> cursor \<Rightarrow> cursor" where
  "ReverseIterator_inc t it =
     (if current_idx it = 0
      then it\<lparr>current_idx := int (bits_per_block t) - 1, ptr := ptr it - 1\<rparr>
      else it\<lparr>current_idx := current_idx it - 1\<rparr>)"

text \<open>\<^verbatim>\<open>ReverseIterator::operator--\<close>\<close>

definition ReverseIterator_dec :: "'a::len itself \<Rightarrow> cursor \<Rightarrow> cursor" where
  "ReverseIterator_dec t it =
     (if size_t_of (current_idx it + 1) < bits_per_block t
      then it\<lparr>current_idx := current_idx it + 1\<rparr>
      else it\<lparr>current_idx := 0, ptr := ptr it + 1\<rparr>)"

text \<open>\<^verbatim>\<open>begin()\<close>, \<^verbatim>\<open>end()\<close>, \<^verbatim>\<open>rbegin()\<close> and \<^verbatim>\<open>rend()\<close>\<close>

definition begin_ba :: "'a::len word BitArray \<Rightarrow> cursor" where
  "begin_ba a = Iterator 0 0"

definition end_ba :: "'a::len word BitArray \<Rightarrow> cursor" where
  "end_ba a =
     Iterator (int (size_t_of (bits a) div bits_per_block TYPE('a)))
              (int (size_t_of (bits a) mod bits_per_block TYPE('a)))"

definition rbegin :: "'a::len word BitArray \<Rightarrow> cursor" where
  "rbegin a =
     ReverseIterator TYPE('a)
       (int (size_t_of (bits a) div bits_per_block TYPE('a)))
       (int (size_t_of (bits a) mod bits_per_block TYPE('a)) - 1)
       (bits a)"

definition rend :: "'a::len word BitArray \<Rightarrow> cursor" where
  "rend a = ReverseIterator TYPE('a) 0 (- 1) (bits a)"

text \<open>
  The traversal loops. \<^verbatim>\<open>for (bool bit : arr)\<close> of the README is
  \<^verbatim>\<open>for (auto it = arr.begin(); it != arr.end(); ++it) { bool bit = *it; ... }\<close>, and
  \<^verbatim>\<open>print\<close> of \<^verbatim>\<open>main.cpp\<close> is
  \<^verbatim>\<open>for (auto it = arr.rbegin(); it != arr.rend(); it++) { std::cout << *it; }\<close>.
  Each returns the booleans it reads, in the order read. \<open>None\<close> is a run with no
  result: one that reads outside the buffer or computes an undefined mask, or one that
  never meets the end position.
\<close>

partial_function (option) forward_loop ::
  "'a::len word list \<Rightarrow> cursor \<Rightarrow> cursor \<Rightarrow> bool list option" where
  [code]: "forward_loop bs it fin =
     (if it = fin then Some []
      else Option.bind (deref bs it) (\<lambda>b.
           Option.bind (forward_loop bs (Iterator_inc TYPE('a) it) fin) (\<lambda>rest.
           Some (b # rest))))"

partial_function (option) reverse_loop ::
  "'a::len word list \<Rightarrow> cursor \<Rightarrow> cursor \<Rightarrow> bool list option" where
  [code]: "reverse_loop bs it fin =
     (if it = fin then Some []
      else Option.bind (deref bs it) (\<lambda>b.
           Option.bind (reverse_loop bs (ReverseIterator_inc TYPE('a) it) fin) (\<lambda>rest.
           Some (b # rest))))"

definition range_for :: "'a::len word BitArray \<Rightarrow> bool list option" where
  "range_for a = forward_loop (blocks a) (begin_ba a) (end_ba a)"

definition print :: "'a::len word BitArray \<Rightarrow> bool list option" where
  "print a = reverse_loop (blocks a) (rbegin a) (rend a)"

section \<open>The representation invariant\<close>

text \<open>
  What the constructor establishes and every member function keeps: the bit count is a
  non-negative \<^verbatim>\<open>long long\<close> and the buffer has the number of blocks computed from it.
\<close>

definition invar :: "'a::len word BitArray \<Rightarrow> bool" where
  "invar a \<longleftrightarrow>
     0 \<le> bits a \<and> long_long (bits a) \<and> length (blocks a) = block_count TYPE('a) (bits a)"

section \<open>The logical view of the stored bits\<close>

text \<open>
  The addressing convention: bit \<open>j\<close> of the array lives in block \<open>j div bits_per_block\<close>,
  at offset \<open>j mod bits_per_block\<close> counted from the most significant bit of the block.
  \<open>capacity\<close> is the number of bits the allocated blocks hold, padding included.
\<close>

definition stored_bit :: "'a::len word BitArray \<Rightarrow> nat \<Rightarrow> bool" where
  "stored_bit a j \<longleftrightarrow>
     bit (blocks a ! (j div bits_per_block TYPE('a)))
         (bits_per_block TYPE('a) - 1 - j mod bits_per_block TYPE('a))"

definition capacity :: "'a::len word BitArray \<Rightarrow> nat" where
  "capacity a = length (blocks a) * bits_per_block TYPE('a)"

text \<open>The iterator position of bit \<open>k\<close>: its block and its offset in the block.\<close>

definition pos :: "'a::len itself \<Rightarrow> nat \<Rightarrow> cursor" where
  "pos t k = Iterator (int (k div bits_per_block t)) (int (k mod bits_per_block t))"

section \<open>The bit arrays a program can hold\<close>

text \<open>
  A bit array is what the constructor returns for a bit count \<open>n \<ge> 0\<close>, or what \<open>set\<close>
  and \<open>clear\<close> at an index below \<open>size()\<close>, \<open>set_all\<close> and \<open>clear_all\<close> return on a bit
  array.
\<close>

inductive reachable :: "'a::len word BitArray \<Rightarrow> bool" where
  constructed: "0 \<le> n \<Longrightarrow> long_long n \<Longrightarrow> new_BitArray mem n = Some a \<Longrightarrow> reachable a"
| after_set: "reachable a \<Longrightarrow> i < size_ba a \<Longrightarrow> set_ba a i = Some a' \<Longrightarrow> reachable a'"
| after_clear: "reachable a \<Longrightarrow> i < size_ba a \<Longrightarrow> clear a i = Some a' \<Longrightarrow> reachable a'"
| after_set_all: "reachable a \<Longrightarrow> set_all a = Some a' \<Longrightarrow> reachable a'"
| after_clear_all: "reachable a \<Longrightarrow> clear_all a = Some a' \<Longrightarrow> reachable a'"

section \<open>Concrete memories and arrays\<close>

text \<open>A fresh allocation in which every bit happens to be set.\<close>

definition all_ones_memory :: "nat \<Rightarrow> 8 word" where
  "all_ones_memory k = 255"

text \<open>A fresh allocation that happens to hold zeros.\<close>

definition zero_memory :: "nat \<Rightarrow> 8 word" where
  "zero_memory k = 0"

text \<open>\<^verbatim>\<open>BitArray<std::uint8_t> arr{9}; arr.set(0);\<close> on zero memory.\<close>

definition nine_bit_array :: "8 word BitArray" where
  "nine_bit_array = \<lparr>blocks = [128, 0], bits = 9\<rparr>"

text \<open>
  The array of \<^verbatim>\<open>main.cpp\<close>, \<^verbatim>\<open>BitArray<std::uint8_t> arr{24}\<close>, after \<^verbatim>\<open>arr.set_all()\<close> and
  \<^verbatim>\<open>arr.clear(0)\<close>, as it is when \<^verbatim>\<open>print\<close> is first called.
\<close>

definition main_array :: "8 word BitArray" where
  "main_array = \<lparr>blocks = [127, 255, 255], bits = 24\<rparr>"

declare set_all_from.simps [simp del] clear_all_from.simps [simp del]

declare set_all_from_bool.simps [simp del] clear_all_from_bool.simps [simp del]

section \<open>Masks, reads and writes on block types no wider than int\<close>

lemma and_width_mask:
  fixes i :: nat
  assumes "w \<in> {8, 16, 32, 64}"
  shows "i AND (w - 1) = i mod w"
proof -
  from assms obtain k where k: "w = 2 ^ k"
    by (auto intro: that[of 3] that[of 4] that[of 5] that[of 6])
  have "i AND (w - 1) = i AND mask k"
    by (simp add: k mask_eq_exp_minus_1)
  also have "\<dots> = i mod w"
    by (simp add: k flip: take_bit_eq_mask take_bit_eq_mod)
  finally show ?thesis .
qed

lemma scast_int_one_shift:
  assumes "sh < LENGTH('a::len)" "LENGTH('a) \<le> 32"
  shows "(scast (push_bit sh (1 :: 32 word)) :: 'a word) = 2 ^ sh"
  using assms
  by (intro bit_eqI) (auto simp: bit_simps bit_word_scast_iff)

lemma block_bitmask_fits:
  assumes "block_fits_int TYPE('a::len)"
  shows "(block_bitmask i :: 'a word option)
           = Some (2 ^ (LENGTH('a) - 1 - i mod LENGTH('a)))"
proof -
  let ?w = "LENGTH('a)"
  from assms have w: "?w \<in> {8, 16, 32}" by (simp add: block_fits_int_def bits_per_block_def)
  then have m: "i AND (?w - 1) = i mod ?w" by (intro and_width_mask) auto
  have lt: "?w - i mod ?w - 1 < ?w" by (simp add: diff_less_mono2 less_imp_diff_less)
  from w have le: "?w \<le> 32" by auto
  have "?w - i mod ?w - 1 < 32" using lt le by linarith
  then show ?thesis
    using scast_int_one_shift[OF lt le] m
    by (simp add: block_bitmask_def bits_per_block_def Let_def)
qed

lemma in_capacity: "j < capacity (a :: 'a::len word BitArray) \<longleftrightarrow> j div LENGTH('a) < length (blocks a)"
  by (simp add: capacity_def bits_per_block_def less_mult_imp_div_less div_less_iff_less_mult)

lemma bit_at_fits:
  fixes a :: "'a::len word BitArray"
  assumes "block_fits_int TYPE('a)" "j < capacity a"
  shows "bit_at a j = Some (stored_bit a j)"
  using assms(2) block_bitmask_fits[OF assms(1), of j]
  by (simp add: bit_at_def stored_bit_def in_capacity bits_per_block_def
        and_exp_eq_0_iff_not_bit)

lemma bit_at_outside:
  fixes a :: "'a::len word BitArray"
  shows "\<not> j < capacity a \<Longrightarrow> bit_at a j = None"
  by (simp add: bit_at_def in_capacity bits_per_block_def)

lemma set_ba_fits:
  fixes a :: "'a::len word BitArray"
  assumes "block_fits_int TYPE('a)" "i < capacity a"
  shows "set_ba a i = Some (a\<lparr>blocks := (blocks a)[i div LENGTH('a) :=
            Bit_Operations.set_bit (LENGTH('a) - 1 - i mod LENGTH('a)) (blocks a ! (i div LENGTH('a)))]\<rparr>)"
  using assms(2) block_bitmask_fits[OF assms(1), of i]
  by (simp add: set_ba_def in_capacity bits_per_block_def set_bit_eq_or)

lemma clear_fits:
  fixes a :: "'a::len word BitArray"
  assumes "block_fits_int TYPE('a)" "i < capacity a"
  shows "clear a i = Some (a\<lparr>blocks := (blocks a)[i div LENGTH('a) :=
            unset_bit (LENGTH('a) - 1 - i mod LENGTH('a)) (blocks a ! (i div LENGTH('a)))]\<rparr>)"
  using assms(2) block_bitmask_fits[OF assms(1), of i]
  by (simp add: clear_def in_capacity bits_per_block_def unset_bit_eq_and_not)

lemma offset_eq_iff:
  fixes i j w :: nat
  assumes "0 < w" "i div w = j div w"
  shows "w - 1 - j mod w = w - 1 - i mod w \<longleftrightarrow> j = i"
proof
  assume h: "w - 1 - j mod w = w - 1 - i mod w"
  have "j mod w < w" "i mod w < w" using assms(1) by simp_all
  with h have "j mod w = i mod w" by linarith
  with assms(2) show "j = i" by (metis div_mult_mod_eq)
qed simp

lemma stored_bit_set:
  fixes a :: "'a::len word BitArray"
  assumes "i < capacity a" "j < capacity a"
  shows "stored_bit (a\<lparr>blocks := (blocks a)[i div LENGTH('a) :=
            Bit_Operations.set_bit (LENGTH('a) - 1 - i mod LENGTH('a)) (blocks a ! (i div LENGTH('a)))]\<rparr>) j
         \<longleftrightarrow> j = i \<or> stored_bit a j"
proof (cases "j div LENGTH('a) = i div LENGTH('a)")
  case True
  have lt: "LENGTH('a) - 1 - i mod LENGTH('a) < LENGTH('a)" by (simp add: less_imp_diff_less)
  show ?thesis
    using assms True offset_eq_iff[of "LENGTH('a)" i j] lt
    by (auto simp: stored_bit_def bits_per_block_def in_capacity bit_set_bit_iff possible_bit_word)
next
  case False
  then have "j \<noteq> i" by auto
  with False show ?thesis
    by (simp add: stored_bit_def bits_per_block_def)
qed

lemma stored_bit_clear:
  fixes a :: "'a::len word BitArray"
  assumes "i < capacity a" "j < capacity a"
  shows "stored_bit (a\<lparr>blocks := (blocks a)[i div LENGTH('a) :=
            unset_bit (LENGTH('a) - 1 - i mod LENGTH('a)) (blocks a ! (i div LENGTH('a)))]\<rparr>) j
         \<longleftrightarrow> j \<noteq> i \<and> stored_bit a j"
proof (cases "j div LENGTH('a) = i div LENGTH('a)")
  case True
  show ?thesis
    using assms True offset_eq_iff[of "LENGTH('a)" i j]
    by (auto simp: stored_bit_def bits_per_block_def in_capacity bit_unset_bit_iff)
next
  case False
  then have "j \<noteq> i" by auto
  with False show ?thesis
    by (simp add: stored_bit_def bits_per_block_def)
qed



lemma size_t_of_nat: "0 \<le> x \<Longrightarrow> x < 2 ^ 63 \<Longrightarrow> size_t_of x = nat x"
  by (simp add: size_t_of_def)

lemma capacity_update [simp]:
  "capacity (a\<lparr>blocks := (blocks a)[q := v]\<rparr>) = capacity a"
  by (simp add: capacity_def)

lemma set_all_from_fits:
  fixes a :: "'a::len word BitArray"
  assumes "block_fits_int TYPE('a)" "0 \<le> i" "bits a < 2 ^ 63" "nat (bits a) \<le> capacity a"
  shows "\<exists>a'. set_all_from i a = Some a' \<and> bits a' = bits a
            \<and> length (blocks a') = length (blocks a)
            \<and> (\<forall>j < capacity a. stored_bit a' j \<longleftrightarrow>
                   stored_bit a j \<or> (nat i \<le> j \<and> j < nat (bits a)))"
  using assms
proof (induction i a rule: set_all_from.induct)
  case (1 i a)
  show ?case
  proof (cases "i < bits a")
    case False
    then show ?thesis
      by (subst set_all_from.simps) auto
  next
    case True
    let ?a1 = "a\<lparr>blocks := (blocks a)[nat i div LENGTH('a) :=
            Bit_Operations.set_bit (LENGTH('a) - 1 - nat i mod LENGTH('a)) (blocks a ! (nat i div LENGTH('a)))]\<rparr>"
    have conv: "size_t_of i = nat i"
      using True "1.prems" by (intro size_t_of_nat) auto
    have cap: "nat i < capacity a"
      using True "1.prems" by linarith
    have step: "set_ba a (size_t_of i) = Some ?a1"
      unfolding conv by (rule set_ba_fits[OF "1.prems"(1) cap])
    have "\<exists>a'. set_all_from (i + 1) ?a1 = Some a' \<and> bits a' = bits ?a1
            \<and> length (blocks a') = length (blocks ?a1)
            \<and> (\<forall>j < capacity ?a1. stored_bit a' j \<longleftrightarrow>
                   stored_bit ?a1 j \<or> (nat (i + 1) \<le> j \<and> j < nat (bits ?a1)))"
      using "1.prems" by (intro "1.IH"[OF True step]) auto
    then obtain a' where a': "set_all_from (i + 1) ?a1 = Some a'" "bits a' = bits a"
        "length (blocks a') = length (blocks a)"
        "\<forall>j < capacity a. stored_bit a' j \<longleftrightarrow>
                   stored_bit ?a1 j \<or> (nat (i + 1) \<le> j \<and> j < nat (bits a))"
      by auto
    have "set_all_from i a = Some a'"
      by (subst set_all_from.simps) (simp only: True step if_True option.case a'(1))
    moreover have "stored_bit a' j \<longleftrightarrow> stored_bit a j \<or> (nat i \<le> j \<and> j < nat (bits a))"
      if "j < capacity a" for j
      using a'(4) that stored_bit_set[OF cap that] True "1.prems"(2) by auto
    ultimately show ?thesis using a'(2,3) by blast
  qed
qed

lemma clear_all_from_fits:
  fixes a :: "'a::len word BitArray"
  assumes "block_fits_int TYPE('a)" "0 \<le> i" "bits a < 2 ^ 63" "nat (bits a) \<le> capacity a"
  shows "\<exists>a'. clear_all_from i a = Some a' \<and> bits a' = bits a
            \<and> length (blocks a') = length (blocks a)
            \<and> (\<forall>j < capacity a. stored_bit a' j \<longleftrightarrow>
                   stored_bit a j \<and> \<not> (nat i \<le> j \<and> j < nat (bits a)))"
  using assms
proof (induction i a rule: clear_all_from.induct)
  case (1 i a)
  show ?case
  proof (cases "i < bits a")
    case False
    then show ?thesis
      by (subst clear_all_from.simps) auto
  next
    case True
    let ?a1 = "a\<lparr>blocks := (blocks a)[nat i div LENGTH('a) :=
            unset_bit (LENGTH('a) - 1 - nat i mod LENGTH('a)) (blocks a ! (nat i div LENGTH('a)))]\<rparr>"
    have conv: "size_t_of i = nat i"
      using True "1.prems" by (intro size_t_of_nat) auto
    have cap: "nat i < capacity a"
      using True "1.prems" by linarith
    have step: "clear a (size_t_of i) = Some ?a1"
      unfolding conv by (rule clear_fits[OF "1.prems"(1) cap])
    have "\<exists>a'. clear_all_from (i + 1) ?a1 = Some a' \<and> bits a' = bits ?a1
            \<and> length (blocks a') = length (blocks ?a1)
            \<and> (\<forall>j < capacity ?a1. stored_bit a' j \<longleftrightarrow>
                   stored_bit ?a1 j \<and> \<not> (nat (i + 1) \<le> j \<and> j < nat (bits ?a1)))"
      using "1.prems" by (intro "1.IH"[OF True step]) auto
    then obtain a' where a': "clear_all_from (i + 1) ?a1 = Some a'" "bits a' = bits a"
        "length (blocks a') = length (blocks a)"
        "\<forall>j < capacity a. stored_bit a' j \<longleftrightarrow>
                   stored_bit ?a1 j \<and> \<not> (nat (i + 1) \<le> j \<and> j < nat (bits a))"
      by auto
    have "clear_all_from i a = Some a'"
      by (subst clear_all_from.simps) (simp only: True step if_True option.case a'(1))
    moreover have "stored_bit a' j \<longleftrightarrow> stored_bit a j \<and> \<not> (nat i \<le> j \<and> j < nat (bits a))"
      if "j < capacity a" for j
      using a'(4) that stored_bit_clear[OF cap that] True "1.prems"(2) by auto
    ultimately show ?thesis using a'(2,3) by blast
  qed
qed

lemma blocks_eqI:
  fixes a b :: "'a::len word BitArray"
  assumes len: "length (blocks a) = length (blocks b)"
    and bits_eq: "\<And>j. j < capacity a \<Longrightarrow> stored_bit a j \<longleftrightarrow> stored_bit b j"
  shows "blocks a = blocks b"
proof (rule nth_equalityI[OF len])
  fix q assume q: "q < length (blocks a)"
  show "blocks a ! q = blocks b ! q"
  proof (rule bit_word_eqI)
    fix p assume p: "p < LENGTH('a)"
    define r where "r = LENGTH('a) - 1 - p"
    have r: "r < LENGTH('a)" "LENGTH('a) - 1 - r = p" using p by (auto simp: r_def)
    let ?j = "q * LENGTH('a) + r"
    have d: "?j div LENGTH('a) = q" and m: "?j mod LENGTH('a) = r" using r(1) by simp_all
    have "?j < capacity a" unfolding in_capacity d by (rule q)
    from bits_eq[OF this] show "bit (blocks a ! q) p \<longleftrightarrow> bit (blocks b ! q) p"
      unfolding stored_bit_def bits_per_block_def d m r(2) .
  qed
qed


lemma invar_size:
  fixes a :: "'a::len word BitArray"
  shows "invar a \<Longrightarrow> size_ba a = nat (bits a)"
  by (simp add: invar_def long_long_def size_ba_def size_t_of_nat)

lemma invar_capacity:
  fixes a :: "'a::len word BitArray"
  assumes "invar a"
  shows "size_ba a \<le> capacity a"
proof -
  let ?w = "LENGTH('a)" and ?n = "nat (bits a)"
  from assms have n: "size_t_of (bits a) = ?n"
    by (simp add: invar_def long_long_def size_t_of_nat)
  from assms have len: "length (blocks a) = ?n div ?w + (if ?n mod ?w \<noteq> 0 then 1 else 0)"
    by (simp add: invar_def block_count_def n bits_per_block_def)
  have dm: "?n div ?w * ?w + ?n mod ?w = ?n" by simp
  have lt: "?n mod ?w < ?w" by simp
  have "?n \<le> length (blocks a) * ?w"
  proof (cases "?n mod ?w = 0")
    case True
    then have "length (blocks a) * ?w = ?n div ?w * ?w" by (simp add: len)
    with dm True show ?thesis by linarith
  next
    case False
    then have "length (blocks a) * ?w = ?n div ?w * ?w + ?w" by (simp add: len)
    with dm lt show ?thesis by linarith
  qed
  then show ?thesis
    using assms by (simp add: invar_size capacity_def bits_per_block_def)
qed

lemma pos_inject: "pos TYPE('a::len) k = pos TYPE('a) n \<longleftrightarrow> k = n"
proof
  assume "pos TYPE('a) k = pos TYPE('a) n"
  then have "k div LENGTH('a) = n div LENGTH('a)" "k mod LENGTH('a) = n mod LENGTH('a)"
    by (simp_all add: pos_def Iterator_def bits_per_block_def)
  then show "k = n" by (metis div_mult_mod_eq)
qed simp

lemma block_fits_int_accepted: "block_fits_int t \<Longrightarrow> block_type_accepted t"
  by (auto simp: block_fits_int_def block_type_accepted_def)

lemma Iterator_inc_pos:
  assumes "block_type_accepted TYPE('a::len)"
  shows "Iterator_inc TYPE('a) (pos TYPE('a) k) = pos TYPE('a) (Suc k)"
proof -
  let ?w = "LENGTH('a)"
  from assms have w: "?w \<le> 64" by (auto simp: block_type_accepted_def bits_per_block_def)
  have m: "k mod ?w < ?w" by simp
  have conv: "size_t_of (int (k mod ?w) + 1) = Suc (k mod ?w)"
  proof -
    have "int (k mod ?w) + 1 \<le> 65" using m w by linarith
    then have "int (k mod ?w) + 1 < 2 ^ 63" by simp
    then have "size_t_of (int (k mod ?w) + 1) = nat (int (k mod ?w) + 1)"
      by (intro size_t_of_nat) auto
    then show ?thesis by simp
  qed
  show ?thesis
  proof (cases "Suc (k mod ?w) < ?w")
    case True
    then have "Suc k mod ?w = Suc (k mod ?w)" "Suc k div ?w = k div ?w"
      by (simp_all add: mod_Suc div_Suc)
    with True show ?thesis
      by (simp add: Iterator_inc_def pos_def Iterator_def bits_per_block_def conv)
  next
    case False
    with m have "Suc (k mod ?w) = ?w" by linarith
    then have "Suc k mod ?w = 0" "Suc k div ?w = Suc (k div ?w)"
      by (simp_all add: mod_Suc div_Suc)
    with False show ?thesis
      by (simp add: Iterator_inc_def pos_def Iterator_def bits_per_block_def conv)
  qed
qed

lemma Iterator_inc_funpow:
  assumes "block_type_accepted TYPE('a::len)"
  shows "(Iterator_inc TYPE('a) ^^ m) (pos TYPE('a) k) = pos TYPE('a) (k + m)"
  by (induction m) (simp_all add: Iterator_inc_pos[OF assms])

lemma deref_pos:
  fixes a :: "'a::len word BitArray"
  assumes "block_fits_int TYPE('a)" "k < capacity a"
  shows "deref (blocks a) (pos TYPE('a) k) = Some (stored_bit a k)"
proof -
  have "size_t_of (int (k mod LENGTH('a))) = k mod LENGTH('a)"
  proof -
    have "k mod LENGTH('a) < LENGTH('a)" by simp
    moreover from assms(1) have "LENGTH('a) \<le> 32" by (auto simp: block_fits_int_def bits_per_block_def)
    ultimately have "int (k mod LENGTH('a)) \<le> 32" by linarith
    then have "int (k mod LENGTH('a)) < 2 ^ 63" by simp
    then have "size_t_of (int (k mod LENGTH('a))) = nat (int (k mod LENGTH('a)))"
      by (intro size_t_of_nat) auto
    then show ?thesis by simp
  qed
  then show ?thesis
    using assms(2) block_bitmask_fits[OF assms(1), of "k mod LENGTH('a)"]
    by (simp add: deref_def pos_def Iterator_def stored_bit_def in_capacity bits_per_block_def
          and_exp_eq_0_iff_not_bit)
qed

lemma forward_loop_pos:
  fixes a :: "'a::len word BitArray"
  assumes "block_fits_int TYPE('a)" "n \<le> capacity a" "k \<le> n"
  shows "forward_loop (blocks a) (pos TYPE('a) k) (pos TYPE('a) n) = Some (map (stored_bit a) [k..<n])"
  using assms(3)
proof (induction k rule: inc_induct)
  case base
  show ?case by (subst forward_loop.simps) simp
next
  case (step k)
  from step.hyps assms(2) have "k < capacity a" by linarith
  from deref_pos[OF assms(1) this] step.hyps step.IH show ?case
    by (subst forward_loop.simps)
       (simp add: pos_inject Iterator_inc_pos[OF block_fits_int_accepted[OF assms(1)]]
          upt_conv_Cons)
qed

lemma block_count_ceiling:
  assumes "0 \<le> n" "long_long n"
  shows "int (block_count TYPE('a::len) n) = \<lceil>real_of_int n / real (bits_per_block TYPE('a))\<rceil>"
proof -
  let ?w = "int LENGTH('a)"
  have w: "0 < ?w" by simp
  from assms have n: "size_t_of n = nat n" by (simp add: long_long_def size_t_of_nat)
  have "\<lceil>real_of_int n / real LENGTH('a)\<rceil> = \<lceil>real_of_int n / real_of_int ?w\<rceil>" by simp
  also have "\<dots> = - (- n div ?w)" by (rule ceiling_divide_eq_div)
  also have "\<dots> = n div ?w + (if n mod ?w \<noteq> 0 then 1 else 0)"
    using w by (simp add: zdiv_zminus1_eq_if)
  also have "\<dots> = int (nat n div LENGTH('a) + (if nat n mod LENGTH('a) \<noteq> 0 then 1 else 0))"
  proof -
    from assms(1) obtain m where m: "n = int m" using nonneg_int_cases by blast
    have "int m mod ?w = int (m mod LENGTH('a))" "int m div ?w = int (m div LENGTH('a))"
      by (simp_all add: zmod_int zdiv_int)
    then show ?thesis unfolding m by simp
  qed
  finally show ?thesis
    by (simp add: block_count_def n bits_per_block_def)
qed


lemma block_offset_div_mod:
  fixes q r w :: nat
  assumes "r < w"
  shows "(q * w + r) div w = q" and "(q * w + r) mod w = r"
  using assms by simp_all

lemma stored_bit_nth:
  fixes a :: "'a::len word BitArray"
  assumes "p < LENGTH('a)"
  shows "stored_bit a (q * LENGTH('a) + (LENGTH('a) - 1 - p)) \<longleftrightarrow> bit (blocks a ! q) p"
proof -
  define r where "r = LENGTH('a) - 1 - p"
  have r: "r < LENGTH('a)" "LENGTH('a) - 1 - r = p" using assms by (auto simp: r_def)
  have d: "(q * LENGTH('a) + r) div LENGTH('a) = q" and m: "(q * LENGTH('a) + r) mod LENGTH('a) = r"
    using r(1) by simp_all
  show ?thesis
    unfolding r_def[symmetric] stored_bit_def bits_per_block_def d m r(2) ..
qed

lemma new_BitArray_fits:
  fixes mem :: "nat \<Rightarrow> 'a::len word"
  assumes "block_fits_int TYPE('a)" "0 \<le> n" "long_long n"
  shows "\<exists>a. new_BitArray mem n = Some a \<and> bits a = n
            \<and> length (blocks a) = block_count TYPE('a) n
            \<and> (\<forall>q p. q < block_count TYPE('a) n \<longrightarrow> p < LENGTH('a) \<longrightarrow>
                  (bit (blocks a ! q) p \<longleftrightarrow>
                   bit (mem q) p \<and> \<not> q * LENGTH('a) + (LENGTH('a) - 1 - p) < nat n))"
proof -
  let ?a0 = "\<lparr>blocks = map mem [0..<block_count TYPE('a) n], bits = n\<rparr> :: 'a word BitArray"
  have inv0: "invar ?a0" using assms(2,3) by (simp add: invar_def)
  have cap0: "nat (bits ?a0) \<le> capacity ?a0"
    using invar_capacity[OF inv0] invar_size[OF inv0] by simp
  have lt: "bits ?a0 < 2 ^ 63" using assms(3) by (simp add: long_long_def)
  from clear_all_from_fits[OF assms(1) order_refl lt cap0]
  obtain a where a: "clear_all_from 0 ?a0 = Some a" "bits a = n"
      "length (blocks a) = block_count TYPE('a) n"
      "\<forall>j < capacity ?a0. stored_bit a j \<longleftrightarrow> stored_bit ?a0 j \<and> \<not> j < nat n"
    by auto
  have "bit (blocks a ! q) p \<longleftrightarrow>
          bit (mem q) p \<and> \<not> q * LENGTH('a) + (LENGTH('a) - 1 - p) < nat n"
    if q: "q < block_count TYPE('a) n" and p: "p < LENGTH('a)" for q p
  proof -
    let ?j = "q * LENGTH('a) + (LENGTH('a) - 1 - p)"
    have "LENGTH('a) - 1 - p < LENGTH('a)" using p by simp
    then have "?j div LENGTH('a) = q" by (rule block_offset_div_mod)
    with q have "?j < capacity ?a0" unfolding in_capacity by simp
    with a(4) have "stored_bit a ?j \<longleftrightarrow> stored_bit ?a0 ?j \<and> \<not> ?j < nat n" by blast
    then show ?thesis
      unfolding stored_bit_nth[OF p] using q by simp
  qed
  with a(1-3) show ?thesis
    by (auto simp: new_BitArray_def clear_all_def)
qed

lemma new_BitArray_invar:
  fixes mem :: "nat \<Rightarrow> 'a::len word"
  assumes "block_fits_int TYPE('a)" "0 \<le> n" "long_long n" "new_BitArray mem n = Some a"
  shows "invar a"
  using new_BitArray_fits[OF assms(1-3), of mem] assms
  by (auto simp: invar_def)

lemma new_BitArray_reads:
  fixes mem :: "nat \<Rightarrow> 'a::len word"
  assumes fits: "block_fits_int TYPE('a)" and n: "0 \<le> n" "long_long n"
    and a: "new_BitArray mem n = Some a" and i: "int i < n"
  shows "bit_at a i = Some False"
proof -
  let ?w = "LENGTH('a)"
  from new_BitArray_fits[OF fits n, of mem] a
  have len: "length (blocks a) = block_count TYPE('a) n" and ba: "bits a = n"
    and bits: "\<And>q p. q < block_count TYPE('a) n \<Longrightarrow> p < ?w \<Longrightarrow>
      bit (blocks a ! q) p \<longleftrightarrow> bit (mem q) p \<and> \<not> q * ?w + (?w - 1 - p) < nat n"
    by auto
  have inv: "invar a" by (rule new_BitArray_invar[OF fits n a])
  from i have "i < size_ba a" by (simp add: invar_size[OF inv] ba)
  with invar_capacity[OF inv] have cap: "i < capacity a" by linarith
  then have q: "i div ?w < block_count TYPE('a) n" by (simp add: in_capacity len)
  have p: "?w - 1 - i mod ?w < ?w" by (simp add: less_imp_diff_less)
  have off: "?w - 1 - (?w - 1 - i mod ?w) = i mod ?w"
  proof -
    have "i mod ?w < ?w" by simp
    then show ?thesis by linarith
  qed
  have "i div ?w * ?w + i mod ?w = i" by simp
  moreover from i have "i < nat n" by linarith
  ultimately have "\<not> stored_bit a i"
    using bits[OF q p] unfolding stored_bit_def bits_per_block_def off by simp
  with bit_at_fits[OF fits cap] show ?thesis by simp
qed

lemma size_t_of_small [simp]: "size_t_of 0 = 0" "size_t_of 1 = 1" "size_t_of (- 1) = 2 ^ 64 - 1"
  by (simp_all add: size_t_of_def)

lemma set_ba_effect:
  fixes a :: "'a::len word BitArray"
  assumes "block_fits_int TYPE('a)" "i < capacity a"
  shows "\<exists>a1. set_ba a i = Some a1 \<and> bits a1 = bits a
            \<and> length (blocks a1) = length (blocks a)
            \<and> (\<forall>j < capacity a. stored_bit a1 j \<longleftrightarrow> j = i \<or> stored_bit a j)"
  using set_ba_fits[OF assms] stored_bit_set[OF assms(2)] by simp

lemma clear_effect:
  fixes a :: "'a::len word BitArray"
  assumes "block_fits_int TYPE('a)" "i < capacity a"
  shows "\<exists>a2. clear a i = Some a2 \<and> bits a2 = bits a
            \<and> length (blocks a2) = length (blocks a)
            \<and> (\<forall>j < capacity a. stored_bit a2 j \<longleftrightarrow> j \<noteq> i \<and> stored_bit a j)"
  using clear_fits[OF assms] stored_bit_clear[OF assms(2)] by simp

lemma invar_same_shape:
  fixes a b :: "'a::len word BitArray"
  assumes "invar a" "bits b = bits a" "length (blocks b) = length (blocks a)"
  shows "invar b" "size_ba b = size_ba a" "capacity b = capacity a"
  using assms by (simp_all add: invar_def size_ba_def capacity_def)

lemma bit_at_cases:
  fixes a :: "'a::len word BitArray"
  assumes "block_fits_int TYPE('a)"
  shows "bit_at a j = (if j < capacity a then Some (stored_bit a j) else None)"
  using bit_at_fits[OF assms] bit_at_outside by auto

lemma at_ba_fits:
  fixes a :: "'a::len word BitArray"
  assumes "block_fits_int TYPE('a)" "invar a" "i < size_ba a"
  shows "at_ba a i = Some (Inr (stored_bit a i), a)"
proof -
  from invar_capacity[OF assms(2)] assms(3) have "i < capacity a" by linarith
  from bit_at_fits[OF assms(1) this] assms(3) show ?thesis
    by (simp add: at_ba_def accessible_def size_ba_def)
qed

lemma same_bits_same_array:
  fixes a b :: "'a::len word BitArray"
  assumes "bits b = bits a" "length (blocks b) = length (blocks a)"
    and "\<And>j. j < capacity a \<Longrightarrow> stored_bit b j \<longleftrightarrow> stored_bit a j"
  shows "b = a"
proof -
  have "blocks b = blocks a"
  proof (rule blocks_eqI[OF assms(2)])
    fix j assume "j < capacity b"
    with assms(2) have "j < capacity a" by (simp add: capacity_def)
    then show "stored_bit b j \<longleftrightarrow> stored_bit a j" by (rule assms(3))
  qed
  with assms(1) show ?thesis by simp
qed

lemma set_all_effect:
  fixes a :: "'a::len word BitArray"
  assumes "block_fits_int TYPE('a)" "invar a"
  shows "\<exists>a'. set_all a = Some a' \<and> invar a' \<and> size_ba a' = size_ba a
            \<and> capacity a' = capacity a
            \<and> (\<forall>j < capacity a. stored_bit a' j \<longleftrightarrow> stored_bit a j \<or> j < size_ba a)"
proof -
  from assms(2) have lt: "bits a < 2 ^ 63" by (simp add: invar_def long_long_def)
  from invar_capacity[OF assms(2)] have cap: "nat (bits a) \<le> capacity a"
    by (simp add: invar_size[OF assms(2)])
  from set_all_from_fits[OF assms(1) order_refl lt cap]
  obtain a' where a': "set_all_from 0 a = Some a'" "bits a' = bits a"
      "length (blocks a') = length (blocks a)"
      "\<forall>j < capacity a. stored_bit a' j \<longleftrightarrow> stored_bit a j \<or> (nat 0 \<le> j \<and> j < nat (bits a))"
    by blast
  from a'(1,4) invar_same_shape[OF assms(2) a'(2,3)] show ?thesis
    by (auto simp: set_all_def invar_size[OF assms(2)])
qed

lemma clear_all_effect:
  fixes a :: "'a::len word BitArray"
  assumes "block_fits_int TYPE('a)" "invar a"
  shows "\<exists>a'. clear_all a = Some a' \<and> invar a' \<and> size_ba a' = size_ba a
            \<and> capacity a' = capacity a
            \<and> (\<forall>j < capacity a. stored_bit a' j \<longleftrightarrow> stored_bit a j \<and> \<not> j < size_ba a)"
proof -
  from assms(2) have lt: "bits a < 2 ^ 63" by (simp add: invar_def long_long_def)
  from invar_capacity[OF assms(2)] have cap: "nat (bits a) \<le> capacity a"
    by (simp add: invar_size[OF assms(2)])
  from clear_all_from_fits[OF assms(1) order_refl lt cap]
  obtain a' where a': "clear_all_from 0 a = Some a'" "bits a' = bits a"
      "length (blocks a') = length (blocks a)"
      "\<forall>j < capacity a. stored_bit a' j \<longleftrightarrow> stored_bit a j \<and> \<not> (nat 0 \<le> j \<and> j < nat (bits a))"
    by blast
  from a'(1,4) invar_same_shape[OF assms(2) a'(2,3)] show ?thesis
    by (auto simp: clear_all_def invar_size[OF assms(2)])
qed

lemma set_ba_frame:
  fixes a :: "'a::len word BitArray"
  assumes "block_fits_int TYPE('a)" "invar a" "i < size_ba a"
  shows "\<exists>a1. set_ba a i = Some a1 \<and> invar a1 \<and> size_ba a1 = size_ba a
           \<and> bit_at a1 i = Some True \<and> (\<forall>j. j \<noteq> i \<longrightarrow> bit_at a1 j = bit_at a j)"
proof -
  from invar_capacity[OF assms(2)] assms(3) have cap: "i < capacity a" by linarith
  from set_ba_effect[OF assms(1) cap] obtain a1 where a1: "set_ba a i = Some a1"
      "bits a1 = bits a" "length (blocks a1) = length (blocks a)"
      "\<forall>j < capacity a. stored_bit a1 j \<longleftrightarrow> j = i \<or> stored_bit a j"
    by blast
  note s1 = invar_same_shape[OF assms(2) a1(2,3)]
  from a1(4) s1(3) cap have "bit_at a1 i = Some True" "\<forall>j. j \<noteq> i \<longrightarrow> bit_at a1 j = bit_at a j"
    by (simp_all add: bit_at_cases[OF assms(1)])
  with a1(1) s1(1,2) show ?thesis by blast
qed

lemma clear_frame:
  fixes a :: "'a::len word BitArray"
  assumes "block_fits_int TYPE('a)" "invar a" "i < size_ba a"
  shows "\<exists>a2. clear a i = Some a2 \<and> invar a2 \<and> size_ba a2 = size_ba a
           \<and> bit_at a2 i = Some False \<and> (\<forall>j. j \<noteq> i \<longrightarrow> bit_at a2 j = bit_at a j)"
proof -
  from invar_capacity[OF assms(2)] assms(3) have cap: "i < capacity a" by linarith
  from clear_effect[OF assms(1) cap] obtain a2 where a2: "clear a i = Some a2"
      "bits a2 = bits a" "length (blocks a2) = length (blocks a)"
      "\<forall>j < capacity a. stored_bit a2 j \<longleftrightarrow> j \<noteq> i \<and> stored_bit a j"
    by blast
  note s2 = invar_same_shape[OF assms(2) a2(2,3)]
  from a2(4) s2(3) cap have "bit_at a2 i = Some False" "\<forall>j. j \<noteq> i \<longrightarrow> bit_at a2 j = bit_at a j"
    by (simp_all add: bit_at_cases[OF assms(1)])
  with a2(1) s2(1,2) show ?thesis by blast
qed

lemma set_all_frame:
  fixes a :: "'a::len word BitArray"
  assumes "block_fits_int TYPE('a)" "invar a"
  shows "\<exists>a'. set_all a = Some a' \<and> invar a' \<and> size_ba a' = size_ba a
           \<and> (\<forall>j < size_ba a. bit_at a' j = Some True)
           \<and> (\<forall>j. size_ba a \<le> j \<longrightarrow> bit_at a' j = bit_at a j)"
proof -
  from set_all_effect[OF assms] obtain a' where a': "set_all a = Some a'" "invar a'"
      "size_ba a' = size_ba a" "capacity a' = capacity a"
      "\<forall>j < capacity a. stored_bit a' j \<longleftrightarrow> stored_bit a j \<or> j < size_ba a"
    by blast
  from a'(4,5) invar_capacity[OF assms(2)]
  have "\<forall>j < size_ba a. bit_at a' j = Some True"
       "\<forall>j. size_ba a \<le> j \<longrightarrow> bit_at a' j = bit_at a j"
    by (auto simp: bit_at_cases[OF assms(1)])
  with a'(1-3) show ?thesis by blast
qed

lemma clear_all_frame:
  fixes a :: "'a::len word BitArray"
  assumes "block_fits_int TYPE('a)" "invar a"
  shows "\<exists>a'. clear_all a = Some a' \<and> invar a' \<and> size_ba a' = size_ba a
           \<and> (\<forall>j < size_ba a. bit_at a' j = Some False)
           \<and> (\<forall>j. size_ba a \<le> j \<longrightarrow> bit_at a' j = bit_at a j)"
proof -
  from clear_all_effect[OF assms] obtain a' where a': "clear_all a = Some a'" "invar a'"
      "size_ba a' = size_ba a" "capacity a' = capacity a"
      "\<forall>j < capacity a. stored_bit a' j \<longleftrightarrow> stored_bit a j \<and> \<not> j < size_ba a"
    by blast
  from a'(4,5) invar_capacity[OF assms(2)]
  have "\<forall>j < size_ba a. bit_at a' j = Some False"
       "\<forall>j. size_ba a \<le> j \<longrightarrow> bit_at a' j = bit_at a j"
    by (auto simp: bit_at_cases[OF assms(1)])
  with a'(1-3) show ?thesis by blast
qed

lemma at_ba_bit_at:
  fixes a :: "'a::len word BitArray"
  assumes "i < size_ba a" "bit_at a i = Some b"
  shows "at_ba a i = Some (Inr b, a)"
  using assms by (simp add: at_ba_def accessible_def size_ba_def)

lemma uint8_fits: "block_fits_int TYPE(8)"
  by (simp add: block_fits_int_def bits_per_block_def)

lemma scenario_24:
  fixes mem :: "nat \<Rightarrow> 8 word"
  shows "\<exists>a0 a1 a2 a3. new_BitArray mem 24 = Some a0 \<and> set_all a0 = Some a1
           \<and> clear a1 0 = Some a2
           \<and> map (at_ba a2) [0..<24] = map (\<lambda>b. Some (Inr b, a2)) (False # replicate 23 True)
           \<and> set_ba a2 0 = Some a3
           \<and> map (at_ba a3) [0..<24] = replicate 24 (Some (Inr True, a3))"
proof -
  note fits = uint8_fits
  have n: "(0::int) \<le> 24" "long_long 24" by (simp_all add: long_long_def)
  from new_BitArray_fits[OF fits n, of mem] obtain a0 where a0: "new_BitArray mem 24 = Some a0"
      "bits a0 = 24"
    by blast
  have inv0: "invar a0" by (rule new_BitArray_invar[OF fits n a0(1)])
  have sz0: "size_ba a0 = 24" by (simp add: invar_size[OF inv0] a0(2))
  from set_all_frame[OF fits inv0] obtain a1 where a1: "set_all a0 = Some a1" "invar a1"
      "size_ba a1 = 24" "\<forall>j < 24. bit_at a1 j = Some True"
    unfolding sz0 by blast
  from clear_frame[OF fits a1(2), of 0] obtain a2 where a2: "clear a1 0 = Some a2" "invar a2"
      "size_ba a2 = 24" "bit_at a2 0 = Some False" "\<forall>j. j \<noteq> 0 \<longrightarrow> bit_at a2 j = bit_at a1 j"
    unfolding a1(3) by auto
  from set_ba_frame[OF fits a2(2), of 0] obtain a3 where a3: "set_ba a2 0 = Some a3" "invar a3"
      "size_ba a3 = 24" "bit_at a3 0 = Some True" "\<forall>j. j \<noteq> 0 \<longrightarrow> bit_at a3 j = bit_at a2 j"
    unfolding a2(3) by auto
  have b2: "bit_at a2 j = Some (j \<noteq> 0)" if "j < 24" for j
  proof (cases "j = 0")
    case True
    with a2(4) show ?thesis by simp
  next
    case False
    with a2(5) a1(4) that show ?thesis by simp
  qed
  have b3: "bit_at a3 j = Some True" if "j < 24" for j
  proof (cases "j = 0")
    case True
    with a3(4) show ?thesis by simp
  next
    case False
    with a3(5) b2[OF that] show ?thesis by simp
  qed
  have r2: "at_ba a2 j = Some (Inr (j \<noteq> 0), a2)" if "j < 24" for j
    using that a2(3) b2[OF that] by (intro at_ba_bit_at) simp_all
  have r3: "at_ba a3 j = Some (Inr True, a3)" if "j < 24" for j
    using that a3(3) b3[OF that] by (intro at_ba_bit_at) simp_all
  have "map (at_ba a2) [0..<24] = at_ba a2 0 # map (at_ba a2) [Suc 0..<24]"
    by (simp add: upt_conv_Cons)
  also have "map (at_ba a2) [Suc 0..<24] = map (\<lambda>j. Some (Inr True, a2)) [Suc 0..<24]"
    by (rule map_cong[OF refl]) (simp add: r2)
  also have "\<dots> = replicate 23 (Some (Inr True, a2))"
    by (simp add: map_replicate_const)
  finally have m2: "map (at_ba a2) [0..<24]
      = map (\<lambda>b. Some (Inr b, a2)) (False # replicate 23 True)"
    by (simp add: r2)
  have "map (at_ba a3) [0..<24] = map (\<lambda>j. Some (Inr True, a3)) [0..<24]"
    by (rule map_cong[OF refl]) (simp add: r3)
  then have m3: "map (at_ba a3) [0..<24] = replicate 24 (Some (Inr True, a3))"
    by (simp add: map_replicate_const)
  from a0(1) a1(1) a2(1) m2 a3(1) m3 show ?thesis by blast
qed

lemma begin_ba_pos: "begin_ba (a :: 'a::len word BitArray) = pos TYPE('a) 0"
  by (simp add: begin_ba_def pos_def)

lemma end_ba_pos: "end_ba (a :: 'a::len word BitArray) = pos TYPE('a) (size_ba a)"
  by (simp add: end_ba_def pos_def size_ba_def)

lemma new_BitArray_cleared_fits:
  fixes mem :: "nat \<Rightarrow> 'a::len word"
  assumes "block_fits_int TYPE('a)" and "0 \<le> n" and "long_long n"
  shows "\<exists>a. new_BitArray mem n = Some a
           \<and> int (length (blocks a)) = \<lceil>real_of_int n / real (bits_per_block TYPE('a))\<rceil>
           \<and> int (size_ba a) = n
           \<and> (\<forall>i. int i < n \<longrightarrow>
                 at_ba a i = Some (Inr False, a) \<and> subscript a i = Some False)"
proof -
  from new_BitArray_fits[OF assms, of mem]
  obtain a where a: "new_BitArray mem n = Some a" "bits a = n"
      "length (blocks a) = block_count TYPE('a) n"
    by auto
  have inv: "invar a" by (rule new_BitArray_invar[OF assms a(1)])
  have sz: "int (size_ba a) = n" using assms(2) by (simp add: invar_size[OF inv] a(2))
  have "at_ba a i = Some (Inr False, a) \<and> subscript a i = Some False" if "int i < n" for i
  proof -
    from that sz have "accessible a i" by (simp add: accessible_def size_ba_def)
    with new_BitArray_reads[OF assms a(1) that] show ?thesis
      by (simp add: at_ba_def subscript_def)
  qed
  with a(1) sz block_count_ceiling[OF assms(2,3), where 'a='a] a(3) show ?thesis
    by auto
qed

lemma new_BitArray_blocks_fits:
  fixes mem :: "nat \<Rightarrow> 'a::len word"
  assumes "block_fits_int TYPE('a)" and "0 \<le> n" and "long_long n"
  shows "\<exists>a. new_BitArray mem n = Some a
           \<and> length (blocks a) = block_count TYPE('a) n
           \<and> (\<forall>q < length (blocks a). blocks a ! q =
                 (if q < nat n div bits_per_block TYPE('a) then 0
                  else mem q AND mask (bits_per_block TYPE('a) - nat n mod bits_per_block TYPE('a))))"
proof -
  let ?w = "LENGTH('a)"
  from new_BitArray_fits[OF assms, of mem]
  obtain a where a: "new_BitArray mem n = Some a"
      "length (blocks a) = block_count TYPE('a) n"
    and bits: "\<And>q p. q < block_count TYPE('a) n \<Longrightarrow> p < ?w \<Longrightarrow>
      bit (blocks a ! q) p \<longleftrightarrow> bit (mem q) p \<and> \<not> q * ?w + (?w - 1 - p) < nat n"
    by auto
  from assms(2,3) have n: "size_t_of n = nat n" by (simp add: long_long_def size_t_of_nat)
  have dm: "nat n div ?w * ?w + nat n mod ?w = nat n" by simp
  have "blocks a ! q = (if q < nat n div ?w then 0 else mem q AND mask (?w - nat n mod ?w))"
    if q: "q < length (blocks a)" for q
  proof (rule bit_word_eqI)
    fix p assume p: "p < ?w"
    from q have q': "q < block_count TYPE('a) n" by (simp add: a(2))
    show "bit (blocks a ! q) p \<longleftrightarrow>
          bit (if q < nat n div ?w then 0 else mem q AND mask (?w - nat n mod ?w)) p"
    proof (cases "q < nat n div ?w")
      case True
      then have "Suc q * ?w \<le> nat n div ?w * ?w" by (intro mult_le_mono1) simp
      with dm have "Suc q * ?w \<le> nat n" by linarith
      moreover have "q * ?w + (?w - 1 - p) < Suc q * ?w" using p by simp
      ultimately have "q * ?w + (?w - 1 - p) < nat n" by linarith
      with bits[OF q' p] True show ?thesis by simp
    next
      case False
      with q' have qeq: "q = nat n div ?w"
        by (simp add: block_count_def n bits_per_block_def split: if_splits)
      have "q * ?w + (?w - 1 - p) < nat n \<longleftrightarrow> \<not> p < ?w - nat n mod ?w"
        using dm p unfolding qeq by linarith
      with bits[OF q' p] False show ?thesis
        by (simp add: bit_and_iff bit_mask_iff p)
    qed
  qed
  with a show ?thesis by (auto simp: bits_per_block_def)
qed

lemma set_clear_at_fits:
  fixes a :: "'a::len word BitArray"
  assumes "block_fits_int TYPE('a)" and "invar a" and "i < size_ba a"
  shows "\<exists>a1 a2 a3. set_ba a i = Some a1 \<and> at_ba a1 i = Some (Inr True, a1)
           \<and> clear a i = Some a2 \<and> at_ba a2 i = Some (Inr False, a2)
           \<and> clear a1 i = Some a3 \<and> at_ba a3 i = Some (Inr False, a3)
           \<and> set_ba a1 i = Some a1 \<and> clear a2 i = Some a2"
proof -
  note fits = assms(1)
  from invar_capacity[OF assms(2)] assms(3) have cap: "i < capacity a" by linarith
  from set_ba_effect[OF fits cap] obtain a1 where a1: "set_ba a i = Some a1"
      "bits a1 = bits a" "length (blocks a1) = length (blocks a)"
      "\<forall>j < capacity a. stored_bit a1 j \<longleftrightarrow> j = i \<or> stored_bit a j"
    by blast
  from clear_effect[OF fits cap] obtain a2 where a2: "clear a i = Some a2"
      "bits a2 = bits a" "length (blocks a2) = length (blocks a)"
      "\<forall>j < capacity a. stored_bit a2 j \<longleftrightarrow> j \<noteq> i \<and> stored_bit a j"
    by blast
  note s1 = invar_same_shape[OF assms(2) a1(2,3)] and s2 = invar_same_shape[OF assms(2) a2(2,3)]
  from cap s1(3) have cap1: "i < capacity a1" by simp
  from cap s2(3) have cap2: "i < capacity a2" by simp
  from clear_effect[OF fits cap1] obtain a3 where a3: "clear a1 i = Some a3"
      "bits a3 = bits a1" "length (blocks a3) = length (blocks a1)"
      "\<forall>j < capacity a1. stored_bit a3 j \<longleftrightarrow> j \<noteq> i \<and> stored_bit a1 j"
    by blast
  note s3 = invar_same_shape[OF s1(1) a3(2,3)]
  have r1: "at_ba a1 i = Some (Inr True, a1)"
    using at_ba_fits[OF fits s1(1), of i] assms(3) s1(2) a1(4) cap by simp
  have r2: "at_ba a2 i = Some (Inr False, a2)"
    using at_ba_fits[OF fits s2(1), of i] assms(3) s2(2) a2(4) cap by simp
  have r3: "at_ba a3 i = Some (Inr False, a3)"
    using at_ba_fits[OF fits s3(1), of i] assms(3) s1(2) s3(2) a3(4) cap1 by simp
  from set_ba_effect[OF fits cap1] obtain b1 where b1: "set_ba a1 i = Some b1"
      "bits b1 = bits a1" "length (blocks b1) = length (blocks a1)"
      "\<forall>j < capacity a1. stored_bit b1 j \<longleftrightarrow> j = i \<or> stored_bit a1 j"
    by blast
  have "b1 = a1"
    using b1(4) a1(4) s1(3) by (intro same_bits_same_array[OF b1(2,3)]) auto
  with b1(1) have i1: "set_ba a1 i = Some a1" by simp
  from clear_effect[OF fits cap2] obtain b2 where b2: "clear a2 i = Some b2"
      "bits b2 = bits a2" "length (blocks b2) = length (blocks a2)"
      "\<forall>j < capacity a2. stored_bit b2 j \<longleftrightarrow> j \<noteq> i \<and> stored_bit a2 j"
    by blast
  have "b2 = a2"
    using b2(4) a2(4) s2(3) by (intro same_bits_same_array[OF b2(2,3)]) auto
  with b2(1) have i2: "clear a2 i = Some a2" by simp
  from a1(1) r1 a2(1) r2 a3(1) r3 i1 i2 show ?thesis by blast
qed

lemma set_clear_frame_fits:
  fixes a :: "'a::len word BitArray" and mem :: "nat \<Rightarrow> 8 word"
  assumes "block_fits_int TYPE('a)" and "invar a"
  shows "(\<forall>i < size_ba a. \<exists>a1 a2. set_ba a i = Some a1 \<and> clear a i = Some a2
            \<and> (\<forall>j. j \<noteq> i \<longrightarrow> bit_at a1 j = bit_at a j \<and> bit_at a2 j = bit_at a j))
       \<and> (\<exists>a'. set_all a = Some a' \<and> size_ba a' = size_ba a
            \<and> (\<forall>j < size_ba a. bit_at a' j = Some True)
            \<and> (\<forall>j. size_ba a \<le> j \<longrightarrow> bit_at a' j = bit_at a j))
       \<and> (\<exists>a'. clear_all a = Some a' \<and> size_ba a' = size_ba a
            \<and> (\<forall>j < size_ba a. bit_at a' j = Some False)
            \<and> (\<forall>j. size_ba a \<le> j \<longrightarrow> bit_at a' j = bit_at a j))
       \<and> (\<exists>a0 a1 a2 a3. new_BitArray mem 24 = Some a0 \<and> set_all a0 = Some a1
            \<and> clear a1 0 = Some a2
            \<and> map (at_ba a2) [0..<24] = map (\<lambda>b. Some (Inr b, a2)) (False # replicate 23 True)
            \<and> set_ba a2 0 = Some a3
            \<and> map (at_ba a3) [0..<24] = replicate 24 (Some (Inr True, a3)))"
proof -
  have one: "\<exists>a1 a2. set_ba a i = Some a1 \<and> clear a i = Some a2
            \<and> (\<forall>j. j \<noteq> i \<longrightarrow> bit_at a1 j = bit_at a j \<and> bit_at a2 j = bit_at a j)"
    if "i < size_ba a" for i
    using set_ba_frame[OF assms that] clear_frame[OF assms that] by blast
  have sa: "\<exists>a'. set_all a = Some a' \<and> size_ba a' = size_ba a
            \<and> (\<forall>j < size_ba a. bit_at a' j = Some True)
            \<and> (\<forall>j. size_ba a \<le> j \<longrightarrow> bit_at a' j = bit_at a j)"
    using set_all_frame[OF assms] by blast
  have ca: "\<exists>a'. clear_all a = Some a' \<and> size_ba a' = size_ba a
            \<and> (\<forall>j < size_ba a. bit_at a' j = Some False)
            \<and> (\<forall>j. size_ba a \<le> j \<longrightarrow> bit_at a' j = bit_at a j)"
    using clear_all_frame[OF assms] by blast
  from one sa ca scenario_24[of mem] show ?thesis by blast
qed

lemma forward_iteration_invar:
  fixes a :: "'a::len word BitArray"
  assumes "block_type_accepted TYPE('a)" and "invar a"
  shows "begin_ba a = Iterator 0 0
       \<and> end_ba a = Iterator (int (size_ba a div bits_per_block TYPE('a)))
                             (int (size_ba a mod bits_per_block TYPE('a)))
       \<and> (Iterator_inc TYPE('a) ^^ size_ba a) (begin_ba a) = end_ba a
       \<and> (\<forall>k < size_ba a. (Iterator_inc TYPE('a) ^^ k) (begin_ba a) \<noteq> end_ba a)
       \<and> (block_fits_int TYPE('a) \<longrightarrow>
            (\<exists>vs. range_for a = Some vs \<and> length vs = size_ba a
               \<and> (\<forall>k < size_ba a. at_ba a k = Some (Inr (vs ! k), a))))"
proof -
  let ?vs = "map (stored_bit a) [0..<size_ba a]"
  have b: "begin_ba a = Iterator 0 0"
    by (simp add: begin_ba_def)
  have e: "end_ba a = Iterator (int (size_ba a div bits_per_block TYPE('a)))
                                 (int (size_ba a mod bits_per_block TYPE('a)))"
    by (simp add: end_ba_def size_ba_def)
  have reach: "(Iterator_inc TYPE('a) ^^ size_ba a) (begin_ba a) = end_ba a"
    unfolding begin_ba_pos end_ba_pos Iterator_inc_funpow[OF assms(1)] by simp
  have early: "\<forall>k < size_ba a. (Iterator_inc TYPE('a) ^^ k) (begin_ba a) \<noteq> end_ba a"
    unfolding begin_ba_pos end_ba_pos Iterator_inc_funpow[OF assms(1)] pos_inject by simp
  have vals: "\<exists>vs. range_for a = Some vs \<and> length vs = size_ba a
               \<and> (\<forall>k < size_ba a. at_ba a k = Some (Inr (vs ! k), a))"
    if fits: "block_fits_int TYPE('a)"
  proof -
    have "range_for a = Some ?vs"
      unfolding range_for_def begin_ba_pos end_ba_pos
      by (rule forward_loop_pos[OF fits invar_capacity[OF assms(2)]]) simp
    moreover have "\<forall>k < size_ba a. at_ba a k = Some (Inr (?vs ! k), a)"
      using at_ba_fits[OF fits assms(2)] by simp
    ultimately show ?thesis by (intro exI[of _ ?vs]) simp
  qed
  from b e reach early vals show ?thesis by blast
qed

section \<open>The bit arrays a program can hold: invariant and block type\<close>

lemma block_bitmask_defined_fits:
  assumes "block_type_accepted TYPE('a::len)" "(block_bitmask 0 :: 'a word option) = Some m"
  shows "block_fits_int TYPE('a)"
proof -
  from assms(2) have "LENGTH('a) - 1 < 32"
    by (simp add: block_bitmask_def bits_per_block_def split: if_splits)
  with assms(1) show ?thesis
    by (auto simp: block_type_accepted_def block_fits_int_def bits_per_block_def)
qed

lemma new_BitArray_zero:
  "new_BitArray mem 0 = Some \<lparr>blocks = [], bits = 0\<rparr>"
  by (simp add: new_BitArray_def clear_all_def clear_all_from.simps block_count_def)

lemma new_BitArray_defined_fits:
  fixes mem :: "nat \<Rightarrow> 'a::len word"
  assumes "block_type_accepted TYPE('a)" "0 < n" "new_BitArray mem n = Some a"
  shows "block_fits_int TYPE('a)"
proof -
  let ?a0 = "\<lparr>blocks = map mem [0..<block_count TYPE('a) n], bits = n\<rparr> :: 'a word BitArray"
  from assms(3) have "clear_all_from 0 ?a0 = Some a"
    by (simp add: new_BitArray_def clear_all_def)
  then obtain a1 where "clear ?a0 (size_t_of 0) = Some a1"
    using assms(2) by (subst (asm) clear_all_from.simps) (auto split: option.splits)
  then obtain m where "(block_bitmask 0 :: 'a word option) = Some m"
    by (auto simp: clear_def split: if_splits)
  with assms(1) show ?thesis by (rule block_bitmask_defined_fits)
qed

lemma set_all_empty:
  "bits a = 0 \<Longrightarrow> set_all a = Some a" "bits a = 0 \<Longrightarrow> clear_all a = Some a"
  by (simp_all add: set_all_def clear_all_def set_all_from.simps clear_all_from.simps)

text \<open>
  Every bit array satisfies the representation invariant. One that holds at least one
  bit has a block type no wider than \<open>int\<close>: its constructor ran \<open>clear(0)\<close>, whose mask
  is the shift by \<open>bits_per_block - 1\<close>. Over a 64-bit block type the constructor has a
  defined result for the bit count 0 only.
\<close>

lemma reachable_invar:
  fixes a :: "'a::len word BitArray"
  assumes "block_type_accepted TYPE('a)" "reachable a"
  shows "invar a \<and> (0 < bits a \<longrightarrow> block_fits_int TYPE('a))"
  using assms(2)
proof (induction rule: reachable.induct)
  case (constructed n mem a)
  show ?case
  proof (cases "n = 0")
    case True
    with constructed(3) have "a = \<lparr>blocks = [], bits = 0\<rparr>"
      by (simp add: new_BitArray_zero)
    then show ?thesis
      by (simp add: invar_def long_long_def block_count_def)
  next
    case False
    with constructed have pos: "0 < n" by simp
    from new_BitArray_defined_fits[OF assms(1) pos constructed(3)]
    have fits: "block_fits_int TYPE('a)" .
    from new_BitArray_invar[OF fits constructed] fits show ?thesis by simp
  qed
next
  case (after_set a i a')
  then have inv: "invar a" by simp
  from after_set(2) have "0 < bits a" by (simp add: invar_size[OF inv])
  with after_set.IH have fits: "block_fits_int TYPE('a)" by simp
  from set_ba_frame[OF fits inv after_set(2)] after_set(3) fits
  show ?case by auto
next
  case (after_clear a i a')
  then have inv: "invar a" by simp
  from after_clear(2) have "0 < bits a" by (simp add: invar_size[OF inv])
  with after_clear.IH have fits: "block_fits_int TYPE('a)" by simp
  from clear_frame[OF fits inv after_clear(2)] after_clear(3) fits
  show ?case by auto
next
  case (after_set_all a a')
  then have inv: "invar a" by simp
  show ?case
  proof (cases "0 < bits a")
    case True
    with after_set_all.IH have fits: "block_fits_int TYPE('a)" by simp
    from set_all_frame[OF fits inv] after_set_all(2) fits show ?thesis by auto
  next
    case False
    with inv have "bits a = 0" by (simp add: invar_def)
    with set_all_empty(1)[OF this] after_set_all show ?thesis by simp
  qed
next
  case (after_clear_all a a')
  then have inv: "invar a" by simp
  show ?case
  proof (cases "0 < bits a")
    case True
    with after_clear_all.IH have fits: "block_fits_int TYPE('a)" by simp
    from clear_all_frame[OF fits inv] after_clear_all(2) fits show ?thesis by auto
  next
    case False
    with inv have "bits a = 0" by (simp add: invar_def)
    with set_all_empty(2)[OF this] after_clear_all show ?thesis by simp
  qed
qed

lemma reachable_cases:
  fixes a :: "'a::len word BitArray"
  assumes "block_type_accepted TYPE('a)" "reachable a"
  obtains (empty) "invar a" "bits a = 0" "size_ba a = 0"
        | (fits) "invar a" "block_fits_int TYPE('a)"
proof -
  from reachable_invar[OF assms] have inv: "invar a"
    and f: "0 < bits a \<longrightarrow> block_fits_int TYPE('a)" by simp_all
  show thesis
  proof (cases "0 < bits a")
    case True
    with f inv show ?thesis by (intro fits) simp_all
  next
    case False
    with inv have "bits a = 0" by (simp add: invar_def)
    with inv show ?thesis by (intro empty) (simp_all add: invar_size)
  qed
qed

lemma nine_bit_array_reachable: "reachable nine_bit_array"
proof -
  have "new_BitArray zero_memory 9 = Some \<lparr>blocks = [0, 0], bits = 9\<rparr>"
    by (simp add: new_BitArray_def clear_all_def clear_all_from.simps clear_def
          block_count_def bits_per_block_def block_bitmask_def zero_memory_def size_t_of_def)
  then have r: "reachable \<lparr>blocks = [0, 0 :: 8 word], bits = 9\<rparr>"
    by (intro reachable.constructed[of 9 zero_memory]) (simp_all add: long_long_def)
  have s: "set_ba \<lparr>blocks = [0, 0 :: 8 word], bits = 9\<rparr> 0 = Some nine_bit_array"
    by (simp add: set_ba_def bits_per_block_def block_bitmask_def nine_bit_array_def)
  show ?thesis
    by (rule reachable.after_set[OF r _ s]) (simp add: size_ba_def size_t_of_def)
qed

lemma range_for_empty:
  fixes a :: "'a::len word BitArray"
  assumes "bits a = 0"
  shows "range_for a = Some []"
proof -
  have "begin_ba a = end_ba a"
    by (simp add: begin_ba_def end_ba_def assms)
  then show ?thesis
    unfolding range_for_def by (subst forward_loop.simps) simp
qed

lemma uint8_accepted: "block_type_accepted TYPE(8)"
  by (simp add: block_type_accepted_def bits_per_block_def)

lemma nine_bit_array_size: "size_ba nine_bit_array = 9"
  by (simp add: nine_bit_array_def size_ba_def size_t_of_def)

lemma main_array_reachable: "reachable main_array"
proof -
  have "new_BitArray zero_memory 24 = Some \<lparr>blocks = [0, 0, 0], bits = 24\<rparr>"
    by (simp add: new_BitArray_def clear_all_def clear_all_from.simps clear_def
          block_count_def bits_per_block_def block_bitmask_def zero_memory_def size_t_of_def
          upt_rec)
  then have r0: "reachable \<lparr>blocks = [0, 0, 0 :: 8 word], bits = 24\<rparr>"
    by (intro reachable.constructed[of 24 zero_memory]) (simp_all add: long_long_def)
  have "set_all \<lparr>blocks = [0, 0, 0 :: 8 word], bits = 24\<rparr>
          = Some \<lparr>blocks = [255, 255, 255], bits = 24\<rparr>"
    by (simp add: set_all_def set_all_from.simps set_ba_def bits_per_block_def
          block_bitmask_def size_t_of_def)
  with r0 have r1: "reachable \<lparr>blocks = [255, 255, 255 :: 8 word], bits = 24\<rparr>"
    by (rule reachable.after_set_all)
  have c: "clear \<lparr>blocks = [255, 255, 255 :: 8 word], bits = 24\<rparr> 0 = Some main_array"
    by (simp add: clear_def bits_per_block_def block_bitmask_def main_array_def)
  show ?thesis
    by (rule reachable.after_clear[OF r1 _ c]) (simp add: size_ba_def size_t_of_def)
qed

lemma set_clear_frame:
  fixes a :: "'a::len word BitArray" and mem :: "nat \<Rightarrow> 8 word"
  assumes "block_type_accepted TYPE('a)" and "reachable a"
  shows "(\<forall>i < size_ba a. \<exists>a1 a2. set_ba a i = Some a1 \<and> clear a i = Some a2
            \<and> (\<forall>j. j \<noteq> i \<longrightarrow> bit_at a1 j = bit_at a j \<and> bit_at a2 j = bit_at a j))
       \<and> (\<exists>a'. set_all a = Some a' \<and> size_ba a' = size_ba a
            \<and> (\<forall>j < size_ba a. bit_at a' j = Some True)
            \<and> (\<forall>j. size_ba a \<le> j \<longrightarrow> bit_at a' j = bit_at a j))
       \<and> (\<exists>a'. clear_all a = Some a' \<and> size_ba a' = size_ba a
            \<and> (\<forall>j < size_ba a. bit_at a' j = Some False)
            \<and> (\<forall>j. size_ba a \<le> j \<longrightarrow> bit_at a' j = bit_at a j))
       \<and> (\<exists>a0 a1 a2 a3. new_BitArray mem 24 = Some a0 \<and> set_all a0 = Some a1
            \<and> clear a1 0 = Some a2
            \<and> map (at_ba a2) [0..<24] = map (\<lambda>b. Some (Inr b, a2)) (False # replicate 23 True)
            \<and> set_ba a2 0 = Some a3
            \<and> map (at_ba a3) [0..<24] = replicate 24 (Some (Inr True, a3)))"
  using assms
proof (cases rule: reachable_cases)
  case empty
  from empty(2) have "set_all a = Some a" "clear_all a = Some a"
    by (rule set_all_empty)+
  with empty(3) scenario_24[of mem] show ?thesis by simp
next
  case fits
  from set_clear_frame_fits[OF fits(2,1), of mem] show ?thesis .
qed

lemma new_BitArray_blocks:
  fixes mem :: "nat \<Rightarrow> 'a::len word"
  assumes "block_type_accepted TYPE('a)" and "0 \<le> n" and "long_long n"
  shows "(block_fits_int TYPE('a) \<longrightarrow> (\<exists>a. new_BitArray mem n = Some a))
       \<and> (\<forall>a. new_BitArray mem n = Some a \<longrightarrow>
             length (blocks a) = block_count TYPE('a) n
           \<and> (\<forall>q < length (blocks a). blocks a ! q =
                 (if q < nat n div bits_per_block TYPE('a) then 0
                  else mem q AND mask (bits_per_block TYPE('a) - nat n mod bits_per_block TYPE('a)))))"
proof -
  have ex: "\<exists>a. new_BitArray mem n = Some a" if "block_fits_int TYPE('a)"
    using new_BitArray_blocks_fits[OF that assms(2,3), of mem] by blast
  have props: "length (blocks a) = block_count TYPE('a) n
           \<and> (\<forall>q < length (blocks a). blocks a ! q =
                 (if q < nat n div bits_per_block TYPE('a) then 0
                  else mem q AND mask (bits_per_block TYPE('a) - nat n mod bits_per_block TYPE('a))))"
    if a: "new_BitArray mem n = Some a" for a
  proof (cases "n = 0")
    case True
    with a have "a = \<lparr>blocks = [], bits = 0\<rparr>" by (simp add: new_BitArray_zero)
    with True show ?thesis by (simp add: block_count_def)
  next
    case False
    with assms(2) have "0 < n" by simp
    from new_BitArray_defined_fits[OF assms(1) this a]
    have "block_fits_int TYPE('a)" .
    from new_BitArray_blocks_fits[OF this assms(2,3), of mem] a show ?thesis by auto
  qed
  from ex props show ?thesis by blast
qed

section \<open>Blocks of type bool\<close>

lemmas bool_defs = bits_per_block_bool_def int_of_bool_def bool_of_int_def block_bitmask_bool_def
  bit_at_bool_def set_bool_def clear_bool_def set_all_bool_def clear_all_bool_def
  new_BitArray_bool_def accessible_bool_def at_bool_def size_t_of_def

lemma block_bitmask_bool_true: "block_bitmask_bool i = Some True"
proof -
  have "i AND 7 = i mod 8" using and_width_mask[of 8 i] by simp
  then have lt: "8 - (i AND 7) - 1 < LENGTH(32)" by simp
  then have "(2 :: 32 word) ^ (8 - (i AND 7) - 1) \<noteq> 0"
    by (simp only: exp_eq_zero_iff not_not)
  with lt show ?thesis
    by (simp add: block_bitmask_bool_def bits_per_block_bool_def bool_of_int_def Let_def)
qed

lemma bit_at_bool_eq:
  "bit_at_bool a i = (if i div 8 < length (blocks a) then Some (blocks a ! (i div 8)) else None)"
  by (simp add: bit_at_bool_def block_bitmask_bool_true bits_per_block_bool_def
        int_of_bool_def bool_of_int_def)

lemma reads_after_clear_bool:
  "map (\<lambda>i. map_option fst (at_bool \<lparr>blocks = [False, True, True], bits = 24\<rparr> i)) [0..<24]
     = map (\<lambda>b. Some (Inr b)) (replicate 8 False @ replicate 16 True)"
proof -
  let ?a = "\<lparr>blocks = [False, True, True], bits = 24\<rparr>"
  have r: "map_option fst (at_bool ?a i) = Some (Inr (8 \<le> i))" if "i < 24" for i
  proof -
    from that have "i div 8 < 3" by simp
    then have "i div 8 = 0 \<or> i div 8 = 1 \<or> i div 8 = 2" by linarith
    moreover have "i div 8 = 0 \<longleftrightarrow> \<not> 8 \<le> i" by (simp add: div_eq_0_iff not_le)
    ultimately have "[False, True, True] ! (i div 8) = (8 \<le> i)" by auto
    with that \<open>i div 8 < 3\<close> show ?thesis
      by (simp add: at_bool_def accessible_bool_def size_t_of_def bit_at_bool_eq)
  qed
  let ?f = "\<lambda>i. map_option fst (at_bool ?a i)"
  have split: "[0..<24] = [0..<8] @ [8..<24]"
    using upt_add_eq_append[of 0 8 16] by simp
  have "map ?f [0..<8] = map (\<lambda>i. Some (Inr False)) [0..<8]"
  proof (rule map_cong[OF refl])
    fix x assume "x \<in> set [0..<8]"
    then have "x < 8" by (simp only: set_upt atLeastLessThan_iff)
    then show "?f x = Some (Inr False)" by (simp add: r)
  qed
  then have e1: "map ?f [0..<8] = replicate 8 (Some (Inr False))"
    by (simp only: map_replicate_const length_upt) simp
  have "map ?f [8..<24] = map (\<lambda>i. Some (Inr True)) [8..<24]"
  proof (rule map_cong[OF refl])
    fix x assume "x \<in> set [8..<24]"
    then have "8 \<le> x" "x < 24" by (simp_all only: set_upt atLeastLessThan_iff)
    then show "?f x = Some (Inr True)" by (simp add: r)
  qed
  then have e2: "map ?f [8..<24] = replicate 16 (Some (Inr True))"
    by (simp only: map_replicate_const length_upt) simp
  have lhs: "map ?f [0..<24] = replicate 8 (Some (Inr False)) @ replicate 16 (Some (Inr True))"
    unfolding split map_append e1 e2 ..
  have rhs: "map (\<lambda>b. Some (Inr b)) (replicate 8 False @ replicate 16 True)
      = replicate 8 (Some (Inr False)) @ replicate 16 (Some (Inr True))"
    by simp
  show ?thesis unfolding lhs rhs ..
qed

section \<open>The claims\<close>

text \<open>
  C1: for a bit array constructed with \<open>n \<ge> 0\<close> bits, whatever was set or cleared
  since, the traversal from \<open>begin\<close> to \<open>end\<close> returns \<open>size()\<close> booleans, the \<open>k\<close>-th
  being what \<open>at(k)\<close> returns; \<open>begin\<close> is block 0 at offset 0, \<open>size()\<close> advance steps
  from it reach \<open>end\<close>, which is block \<open>size() div block_width\<close> at offset
  \<open>size() mod block_width\<close>, and fewer steps do not.
\<close>

theorem forward_iteration:
  fixes a :: "'a::len word BitArray"
  assumes "block_type_accepted TYPE('a)" and "reachable a"
  shows "(\<exists>vs. range_for a = Some vs \<and> length vs = size_ba a
            \<and> (\<forall>k < size_ba a. at_ba a k = Some (Inr (vs ! k), a)))
       \<and> begin_ba a = Iterator 0 0
       \<and> end_ba a = Iterator (int (size_ba a div bits_per_block TYPE('a)))
                             (int (size_ba a mod bits_per_block TYPE('a)))
       \<and> (Iterator_inc TYPE('a) ^^ size_ba a) (begin_ba a) = end_ba a
       \<and> (\<forall>k < size_ba a. (Iterator_inc TYPE('a) ^^ k) (begin_ba a) \<noteq> end_ba a)"
proof -
  from reachable_invar[OF assms] have inv: "invar a" by simp
  note p = forward_iteration_invar[OF assms(1) inv]
  have "\<exists>vs. range_for a = Some vs \<and> length vs = size_ba a
            \<and> (\<forall>k < size_ba a. at_ba a k = Some (Inr (vs ! k), a))"
    using assms
  proof (cases rule: reachable_cases)
    case empty
    from range_for_empty[OF empty(2)] empty(3) show ?thesis by simp
  next
    case fits
    with p show ?thesis by blast
  qed
  with p show ?thesis by blast
qed

theorem forward_iteration_witness:
  "block_type_accepted TYPE(8) \<and> reachable nine_bit_array \<and> size_ba nine_bit_array = 9
   \<and> (\<exists>vs. range_for nine_bit_array = Some vs \<and> length vs = 9
         \<and> at_ba nine_bit_array 0 = Some (Inr (vs ! 0), nine_bit_array))
   \<and> end_ba nine_bit_array = Iterator 1 1
   \<and> (Iterator_inc TYPE(8) ^^ 9) (begin_ba nine_bit_array) = end_ba nine_bit_array
   \<and> (Iterator_inc TYPE(8) ^^ 8) (begin_ba nine_bit_array) \<noteq> end_ba nine_bit_array"
proof -
  note h = uint8_accepted nine_bit_array_reachable
  note sz = nine_bit_array_size
  note t = forward_iteration[OF h, unfolded sz]
  from t have e: "end_ba nine_bit_array = Iterator 1 1"
    by (simp add: bits_per_block_def)
  from t have r: "(Iterator_inc TYPE(8) ^^ 9) (begin_ba nine_bit_array) = end_ba nine_bit_array"
    by blast
  from t have "\<forall>k < 9. (Iterator_inc TYPE(8) ^^ k) (begin_ba nine_bit_array)
      \<noteq> end_ba nine_bit_array"
    by blast
  then have n8: "(Iterator_inc TYPE(8) ^^ 8) (begin_ba nine_bit_array) \<noteq> end_ba nine_bit_array"
    by simp
  from t obtain vs where vs: "range_for nine_bit_array = Some vs" "length vs = 9"
      "\<forall>k < 9. at_ba nine_bit_array k = Some (Inr (vs ! k), nine_bit_array)"
    by blast
  from vs(3) have "at_ba nine_bit_array 0 = Some (Inr (vs ! 0), nine_bit_array)" by simp
  with h sz e r n8 vs(1,2) show ?thesis by blast
qed

text \<open>
  C2 on bit arrays of 8-bit blocks. The constructor given a negative offset stays on
  the block it was given. For 9 bits, of which bit 0 is set, the forward traversal
  reads nine booleans and the reverse traversal of \<open>print\<close> reads one. For the 24 bits
  of \<open>main.cpp\<close>, \<open>rbegin\<close> points at block 3 of a buffer of 3 blocks, so that the first
  dereference of \<open>print\<close> is a read past the buffer.
\<close>

theorem print_reverse_8bit:
  "ReverseIterator TYPE(8) 3 (- 1) 24 = \<lparr>ptr = 3, current_idx = 7\<rparr>
   \<and> reachable nine_bit_array
   \<and> range_for nine_bit_array
       = Some [True, False, False, False, False, False, False, False, False]
   \<and> print nine_bit_array = Some [False]
   \<and> reachable main_array
   \<and> length (blocks main_array) = 3
   \<and> rbegin main_array = \<lparr>ptr = 3, current_idx = 7\<rparr>
   \<and> deref (blocks main_array) (rbegin main_array) = None
   \<and> print main_array = None"
proof -
  have c: "ReverseIterator TYPE(8) 3 (- 1) 24 = \<lparr>ptr = 3, current_idx = 7\<rparr>"
    by (simp add: ReverseIterator_def bits_per_block_def)
  have f: "range_for nine_bit_array
       = Some [True, False, False, False, False, False, False, False, False]"
    by (simp add: range_for_def begin_ba_def end_ba_def Iterator_def forward_loop.simps
          Iterator_inc_def deref_def block_bitmask_def bits_per_block_def nine_bit_array_def
          size_t_of_def)
  have p: "print nine_bit_array = Some [False]"
    by (simp add: print_def rbegin_def rend_def ReverseIterator_def reverse_loop.simps
          ReverseIterator_inc_def deref_def block_bitmask_def bits_per_block_def
          nine_bit_array_def size_t_of_def)
  have l: "length (blocks main_array) = 3"
    by (simp add: main_array_def)
  have r: "rbegin main_array = \<lparr>ptr = 3, current_idx = 7\<rparr>"
    by (simp add: rbegin_def ReverseIterator_def bits_per_block_def main_array_def size_t_of_def)
  have e: "rend main_array = \<lparr>ptr = 0, current_idx = 7\<rparr>"
    by (simp add: rend_def ReverseIterator_def bits_per_block_def)
  have d: "deref (blocks main_array) (rbegin main_array) = None"
    unfolding r by (simp add: deref_def main_array_def)
  have "print main_array = None"
    unfolding print_def by (subst reverse_loop.simps) (simp add: d, simp add: r e)
  with c nine_bit_array_reachable f p main_array_reachable l r d show ?thesis by blast
qed

text \<open>
  C3 at a 64-bit block type, which the static assertions accept: the constructor runs
  \<open>clear_all\<close>, whose first \<open>clear(0)\<close> computes the mask of index 0, the shift of an
  \<open>int\<close> by 63. Constructing an array of one bit, or of any positive number of bits, has
  no defined result.
\<close>

theorem new_BitArray_uint64:
  fixes mem :: "nat \<Rightarrow> 64 word"
  shows "block_type_accepted TYPE(64)
       \<and> (block_bitmask 0 :: 64 word option) = None
       \<and> clear \<lparr>blocks = [mem 0], bits = 1\<rparr> 0 = None
       \<and> new_BitArray mem 1 = None"
  by (simp add: block_type_accepted_def bits_per_block_def block_bitmask_def clear_def
        new_BitArray_def clear_all_def clear_all_from.simps block_count_def)

text \<open>
  C4: \<open>at(i)\<close> fails with IndexOutOfRange exactly when \<open>i \<ge> size()\<close>, that is when
  \<open>accessible(i)\<close> is false, and then leaves the array as it was; when it succeeds it
  returns the value of bit \<open>i\<close>, the one the unchecked read returns, and on a bit array
  it does succeed below \<open>size()\<close>, with the bit stored at the position of \<open>i\<close>;
  IndexOutOfRange is the only error there is.
\<close>

theorem at_ba_checked:
  fixes a :: "'a::len word BitArray"
  shows "(accessible a i \<longleftrightarrow> i < size_ba a)
       \<and> (at_ba a i = Some (Inl IndexOutOfRange, a) \<longleftrightarrow> size_ba a \<le> i)
       \<and> ((\<exists>e a'. at_ba a i = Some (Inl e, a')) \<longleftrightarrow> \<not> accessible a i)
       \<and> (\<forall>r a'. at_ba a i = Some (r, a') \<longrightarrow> a' = a)
       \<and> (i < size_ba a \<longrightarrow> at_ba a i = map_option (\<lambda>b. (Inr b, a)) (subscript a i))
       \<and> (block_type_accepted TYPE('a) \<and> reachable a \<and> i < size_ba a \<longrightarrow>
            at_ba a i = Some (Inr (stored_bit a i), a))
       \<and> (\<forall>e :: error. e = IndexOutOfRange)"
proof -
  have acc: "accessible a i \<longleftrightarrow> i < size_ba a"
    by (simp add: accessible_def size_ba_def)
  have fail: "at_ba a i = Some (Inl IndexOutOfRange, a) \<longleftrightarrow> size_ba a \<le> i"
    by (auto simp: at_ba_def acc)
  have fail': "(\<exists>e a'. at_ba a i = Some (Inl e, a')) \<longleftrightarrow> \<not> accessible a i"
    by (auto simp: at_ba_def)
  have same: "\<forall>r a'. at_ba a i = Some (r, a') \<longrightarrow> a' = a"
    by (auto simp: at_ba_def)
  have read: "i < size_ba a \<longrightarrow> at_ba a i = map_option (\<lambda>b. (Inr b, a)) (subscript a i)"
    by (simp add: at_ba_def acc subscript_def)
  have val: "block_type_accepted TYPE('a) \<and> reachable a \<and> i < size_ba a \<longrightarrow>
            at_ba a i = Some (Inr (stored_bit a i), a)"
  proof (intro impI, elim conjE)
    assume h: "block_type_accepted TYPE('a)" "reachable a" "i < size_ba a"
    from h(1,2) show "at_ba a i = Some (Inr (stored_bit a i), a)"
    proof (cases rule: reachable_cases)
      case empty
      with h(3) show ?thesis by simp
    next
      case fits
      from at_ba_fits[OF fits(2,1) h(3)] show ?thesis .
    qed
  qed
  have only: "\<forall>e :: error. e = IndexOutOfRange"
    by (auto intro: error.exhaust)
  from acc fail fail' same read val only show ?thesis by blast
qed

theorem at_ba_checked_witness:
  "accessible nine_bit_array 0 \<and> \<not> accessible nine_bit_array 9
   \<and> size_ba nine_bit_array = 9
   \<and> at_ba nine_bit_array 9 = Some (Inl IndexOutOfRange, nine_bit_array)
   \<and> block_type_accepted TYPE(8) \<and> reachable nine_bit_array
   \<and> stored_bit nine_bit_array 0
   \<and> at_ba nine_bit_array 0 = Some (Inr True, nine_bit_array)"
proof -
  note sz = nine_bit_array_size
  note h = uint8_accepted nine_bit_array_reachable
  have sb: "stored_bit nine_bit_array 0"
    by (simp add: stored_bit_def nine_bit_array_def bits_per_block_def bit_iff_odd_drop_bit)
  have lt: "0 < size_ba nine_bit_array" "\<not> 9 < size_ba nine_bit_array" "size_ba nine_bit_array \<le> 9"
    by (simp_all add: sz)
  from at_ba_checked[of nine_bit_array 0] lt(1)
  have a0: "accessible nine_bit_array 0" by blast
  from at_ba_checked[of nine_bit_array 9] lt(2)
  have a1: "\<not> accessible nine_bit_array 9" by blast
  from at_ba_checked[of nine_bit_array 9] lt(3)
  have f1: "at_ba nine_bit_array 9 = Some (Inl IndexOutOfRange, nine_bit_array)" by blast
  from at_ba_checked[of nine_bit_array 0] h lt(1)
  have "at_ba nine_bit_array 0 = Some (Inr (stored_bit nine_bit_array 0), nine_bit_array)" by blast
  with sb have v0: "at_ba nine_bit_array 0 = Some (Inr True, nine_bit_array)" by simp
  from a0 a1 sz f1 h sb v0 show ?thesis by blast
qed

text \<open>
  C5 at a 64-bit block type, which the static assertions accept: the mask of index 32
  is \<open>0xFFFFFFFF80000000\<close>, 33 bits instead of the single bit \<open>2 ^ 31\<close>, and the mask
  of index 0 is the shift of an \<open>int\<close> by 63, which has no defined value.
\<close>

theorem block_bitmask_uint64:
  "block_type_accepted TYPE(64)
   \<and> (block_bitmask 32 :: 64 word option) = Some 0xFFFFFFFF80000000
   \<and> (0xFFFFFFFF80000000 :: 64 word) \<noteq> 2 ^ (64 - 32 mod 64 - 1)
   \<and> (block_bitmask 0 :: 64 word option) = None"
  by (simp add: block_type_accepted_def bits_per_block_def block_bitmask_def)

text \<open>
  C6: for a bit array and a valid index \<open>i < size()\<close>, \<open>set(i)\<close> followed by \<open>at(i)\<close>
  returns true and \<open>clear(i)\<close> followed by \<open>at(i)\<close> returns false, also when the clear
  comes after the set; a second \<open>set(i)\<close> or \<open>clear(i)\<close> leaves the array as the first
  one left it.
\<close>

theorem set_clear_at:
  fixes a :: "'a::len word BitArray"
  assumes "block_type_accepted TYPE('a)" and "reachable a" and "i < size_ba a"
  shows "\<exists>a1 a2 a3. set_ba a i = Some a1 \<and> at_ba a1 i = Some (Inr True, a1)
           \<and> clear a i = Some a2 \<and> at_ba a2 i = Some (Inr False, a2)
           \<and> clear a1 i = Some a3 \<and> at_ba a3 i = Some (Inr False, a3)
           \<and> set_ba a1 i = Some a1 \<and> clear a2 i = Some a2"
  using assms(1,2)
proof (cases rule: reachable_cases)
  case empty
  with assms(3) show ?thesis by simp
next
  case fits
  from set_clear_at_fits[OF fits(2,1) assms(3)] show ?thesis .
qed

theorem set_clear_at_witness:
  "block_type_accepted TYPE(8) \<and> reachable nine_bit_array \<and> 8 < size_ba nine_bit_array
   \<and> (\<exists>a1 a2 a3. set_ba nine_bit_array 8 = Some a1 \<and> at_ba a1 8 = Some (Inr True, a1)
           \<and> clear nine_bit_array 8 = Some a2 \<and> at_ba a2 8 = Some (Inr False, a2)
           \<and> clear a1 8 = Some a3 \<and> at_ba a3 8 = Some (Inr False, a3)
           \<and> set_ba a1 8 = Some a1 \<and> clear a2 8 = Some a2)"
proof -
  have lt: "8 < size_ba nine_bit_array" by (simp add: nine_bit_array_size)
  from set_clear_at[OF uint8_accepted nine_bit_array_reachable lt]
    uint8_accepted nine_bit_array_reachable lt
  show ?thesis by blast
qed

text \<open>
  C7 at the block type \<^verbatim>\<open>bool\<close>, which the static assertions accept, with block width 8
  and size 24. Every mask is \<open>true\<close>, so \<open>set\<close> and \<open>clear\<close> write the whole block:
  on the fresh array \<open>set(0)\<close> changes what \<open>at(1)\<close> returns from false to true; after
  \<open>set_all()\<close>, \<open>clear(0)\<close> changes it from true to false, and the checked accessor
  then reads eight zeros followed by sixteen ones.
\<close>

theorem set_clear_frame_bool:
  "new_BitArray_bool mem 24 = Some \<lparr>blocks = [False, False, False], bits = 24\<rparr>
   \<and> at_bool \<lparr>blocks = [False, False, False], bits = 24\<rparr> 1
       = Some (Inr False, \<lparr>blocks = [False, False, False], bits = 24\<rparr>)
   \<and> set_bool \<lparr>blocks = [False, False, False], bits = 24\<rparr> 0
       = Some \<lparr>blocks = [True, False, False], bits = 24\<rparr>
   \<and> at_bool \<lparr>blocks = [True, False, False], bits = 24\<rparr> 1
       = Some (Inr True, \<lparr>blocks = [True, False, False], bits = 24\<rparr>)
   \<and> set_all_bool \<lparr>blocks = [False, False, False], bits = 24\<rparr>
       = Some \<lparr>blocks = [True, True, True], bits = 24\<rparr>
   \<and> at_bool \<lparr>blocks = [True, True, True], bits = 24\<rparr> 1
       = Some (Inr True, \<lparr>blocks = [True, True, True], bits = 24\<rparr>)
   \<and> clear_bool \<lparr>blocks = [True, True, True], bits = 24\<rparr> 0
       = Some \<lparr>blocks = [False, True, True], bits = 24\<rparr>
   \<and> at_bool \<lparr>blocks = [False, True, True], bits = 24\<rparr> 1
       = Some (Inr False, \<lparr>blocks = [False, True, True], bits = 24\<rparr>)
   \<and> map (\<lambda>i. map_option fst (at_bool \<lparr>blocks = [False, True, True], bits = 24\<rparr> i)) [0..<24]
       = map (\<lambda>b. Some (Inr b)) (replicate 8 False @ replicate 16 True)"
proof -
  have n: "new_BitArray_bool mem 24 = Some \<lparr>blocks = [False, False, False], bits = 24\<rparr>"
    by (simp add: bool_defs clear_all_from_bool.simps upt_rec)
  have b0: "at_bool \<lparr>blocks = [False, False, False], bits = 24\<rparr> 1
       = Some (Inr False, \<lparr>blocks = [False, False, False], bits = 24\<rparr>)"
    by (simp add: bool_defs)
  have s0: "set_bool \<lparr>blocks = [False, False, False], bits = 24\<rparr> 0
       = Some \<lparr>blocks = [True, False, False], bits = 24\<rparr>"
    by (simp add: bool_defs)
  have b1: "at_bool \<lparr>blocks = [True, False, False], bits = 24\<rparr> 1
       = Some (Inr True, \<lparr>blocks = [True, False, False], bits = 24\<rparr>)"
    by (simp add: bool_defs)
  have s: "set_all_bool \<lparr>blocks = [False, False, False], bits = 24\<rparr>
       = Some \<lparr>blocks = [True, True, True], bits = 24\<rparr>"
    by (simp add: bool_defs set_all_from_bool.simps)
  have a1: "at_bool \<lparr>blocks = [True, True, True], bits = 24\<rparr> 1
       = Some (Inr True, \<lparr>blocks = [True, True, True], bits = 24\<rparr>)"
    by (simp add: bool_defs)
  have c: "clear_bool \<lparr>blocks = [True, True, True], bits = 24\<rparr> 0
       = Some \<lparr>blocks = [False, True, True], bits = 24\<rparr>"
    by (simp add: bool_defs)
  have a2: "at_bool \<lparr>blocks = [False, True, True], bits = 24\<rparr> 1
       = Some (Inr False, \<lparr>blocks = [False, True, True], bits = 24\<rparr>)"
    by (simp add: bool_defs)
  from n b0 s0 b1 s a1 c a2 reads_after_clear_bool show ?thesis by (intro conjI)
qed

text \<open>
  C8 at \<^verbatim>\<open>BitArray<std::uint8_t>{1}\<close> on a fresh allocation whose bits are all set: the
  constructor clears bit 0 and leaves the seven padding bits of the block as they were,
  so that the one allocated block is \<open>0x7F\<close> and not zero.
\<close>

theorem new_BitArray_padding_uint8:
  "new_BitArray all_ones_memory 1 = Some \<lparr>blocks = [127], bits = 1\<rparr>
   \<and> (127 :: 8 word) \<noteq> 0"
  by (simp add: new_BitArray_def clear_all_def clear_all_from.simps clear_def block_count_def
        bits_per_block_def block_bitmask_def all_ones_memory_def)

text \<open>
  C9: a bit array constructed with size 0 has \<open>begin() = end()\<close> and
  \<open>rbegin() = rend()\<close>, so that a forward and a reverse traversal read nothing and make
  no step, and \<open>at(0)\<close> fails with IndexOutOfRange. The same holds of any array whose
  bit count is 0.
\<close>

theorem empty_BitArray:
  fixes mem :: "nat \<Rightarrow> 'a::len word"
  shows "new_BitArray mem 0 = Some \<lparr>blocks = [], bits = 0\<rparr>
       \<and> (\<forall>a :: 'a word BitArray. bits a = 0 \<longrightarrow>
             size_ba a = 0
           \<and> begin_ba a = end_ba a \<and> rbegin a = rend a
           \<and> range_for a = Some [] \<and> print a = Some []
           \<and> at_ba a 0 = Some (Inl IndexOutOfRange, a))"
proof -
  have "new_BitArray mem 0 = Some \<lparr>blocks = [], bits = 0\<rparr>"
    by (simp add: new_BitArray_def clear_all_def clear_all_from.simps block_count_def)
  moreover have "size_ba a = 0 \<and> begin_ba a = end_ba a \<and> rbegin a = rend a
           \<and> range_for a = Some [] \<and> print a = Some []
           \<and> at_ba a 0 = Some (Inl IndexOutOfRange, a)"
    if "bits a = 0" for a :: "'a word BitArray"
  proof -
    have be: "begin_ba a = end_ba a"
      by (simp add: begin_ba_def end_ba_def that)
    have re: "rbegin a = rend a"
      by (simp add: rbegin_def rend_def that)
    have "range_for a = Some []"
      unfolding range_for_def be by (subst forward_loop.simps) simp
    moreover have "print a = Some []"
      unfolding print_def re by (subst reverse_loop.simps) simp
    ultimately show ?thesis
      using be re by (simp add: size_ba_def at_ba_def accessible_def that)
  qed
  ultimately show ?thesis by blast
qed

theorem empty_BitArray_witness:
  "new_BitArray all_ones_memory 0 = Some \<lparr>blocks = [], bits = 0\<rparr>
   \<and> bits \<lparr>blocks = [] :: 8 word list, bits = 0\<rparr> = 0
   \<and> begin_ba \<lparr>blocks = [] :: 8 word list, bits = 0\<rparr> = end_ba \<lparr>blocks = [] :: 8 word list, bits = 0\<rparr>
   \<and> rbegin \<lparr>blocks = [] :: 8 word list, bits = 0\<rparr> = rend \<lparr>blocks = [] :: 8 word list, bits = 0\<rparr>
   \<and> range_for \<lparr>blocks = [] :: 8 word list, bits = 0\<rparr> = Some []
   \<and> print \<lparr>blocks = [] :: 8 word list, bits = 0\<rparr> = Some []
   \<and> at_ba \<lparr>blocks = [] :: 8 word list, bits = 0\<rparr> 0
       = Some (Inl IndexOutOfRange, \<lparr>blocks = [], bits = 0\<rparr>)"
  using empty_BitArray[of all_ones_memory] by simp

text \<open>
  C10: the reverse iterator a construction produces is determined by the block pointer
  and the raw offset; the bit count passed as third argument has no effect on it, nor
  on the steps and the dereference made from it.
\<close>

theorem ReverseIterator_ignores_nbits:
  "ReverseIterator t p idx n1 = ReverseIterator t p idx n2
   \<and> ReverseIterator_inc t (ReverseIterator t p idx n1)
       = ReverseIterator_inc t (ReverseIterator t p idx n2)
   \<and> ReverseIterator_dec t (ReverseIterator t p idx n1)
       = ReverseIterator_dec t (ReverseIterator t p idx n2)
   \<and> deref bs (ReverseIterator t p idx n1) = deref bs (ReverseIterator t p idx n2)"
  by (simp add: ReverseIterator_def)

end
